theory Spec2Isabelle
  imports Complex_Main
begin

section \<open>JavaScript numbers\<close>

text \<open>
  A JavaScript \<open>number\<close> is a binary64 floating-point value: a finite value, one of the two
  infinities, or NaN. Every arithmetic operation returns the exact real result rounded to
  the nearest binary64 value, ties to the value with the even significand, and an infinity
  where the rounded value is out of range; \<open>Math.sqrt\<close> is taken to be correctly rounded
  too, as it is on the IEEE 754 hardware that hosts run on. Division by zero and the square
  root of a negative number produce the special values. The sign of zero is not modelled.

  \<open>fl\<close> is that rounding. The binade of \<open>x\<close> is the \<open>e\<close> with \<open>2^e \<le> |x| < 2^(e+1)\<close>; the
  binary64 values of that binade are the multiples of \<open>2^(e - 52)\<close>, and below \<open>2^(-1022)\<close>
  (the subnormal range) the multiples of \<open>2^(-1074)\<close>.
\<close>

datatype number = Fin real | PInf | NInf | NaN

definition pow2 :: "int \<Rightarrow> real" where
  "pow2 k = (if 0 \<le> k then 2 ^ nat k else 1 / 2 ^ nat (- k))"

definition round_to_even :: "real \<Rightarrow> int" where
  "round_to_even q =
     (let n = \<lfloor>q\<rfloor>; d = q - of_int n
      in if d < 1 / 2 then n else if 1 / 2 < d then n + 1 else if even n then n else n + 1)"

definition binade :: "real \<Rightarrow> int" where
  "binade x = \<lfloor>log 2 \<bar>x\<bar>\<rfloor>"

definition ulp_exponent :: "real \<Rightarrow> int" where
  "ulp_exponent x = max (binade x) (- 1022) - 52"

definition nearest_on_grid :: "real \<Rightarrow> real" where
  "nearest_on_grid x =
     (if x = 0 then 0
      else real_of_int (round_to_even (x / pow2 (ulp_exponent x))) * pow2 (ulp_exponent x))"

definition fl :: "real \<Rightarrow> number" where
  "fl x =
     (let r = nearest_on_grid x
      in if pow2 1024 \<le> \<bar>r\<bar> then (if 0 < x then PInf else NInf) else Fin r)"

definition inf_of_sign :: "bool \<Rightarrow> number" where
  "inf_of_sign positive = (if positive then PInf else NInf)"

fun num_neg :: "number \<Rightarrow> number" where
  "num_neg (Fin a) = Fin (- a)"
| "num_neg PInf = NInf"
| "num_neg NInf = PInf"
| "num_neg NaN = NaN"

fun num_add :: "number \<Rightarrow> number \<Rightarrow> number" where
  "num_add NaN _ = NaN"
| "num_add _ NaN = NaN"
| "num_add (Fin a) (Fin b) = fl (a + b)"
| "num_add PInf NInf = NaN"
| "num_add NInf PInf = NaN"
| "num_add PInf _ = PInf"
| "num_add NInf _ = NInf"
| "num_add (Fin _) PInf = PInf"
| "num_add (Fin _) NInf = NInf"

definition num_sub :: "number \<Rightarrow> number \<Rightarrow> number" where
  "num_sub x y = num_add x (num_neg y)"

fun num_mul :: "number \<Rightarrow> number \<Rightarrow> number" where
  "num_mul NaN _ = NaN"
| "num_mul _ NaN = NaN"
| "num_mul (Fin a) (Fin b) = fl (a * b)"
| "num_mul (Fin a) PInf = (if a = 0 then NaN else inf_of_sign (0 < a))"
| "num_mul (Fin a) NInf = (if a = 0 then NaN else inf_of_sign (a < 0))"
| "num_mul PInf (Fin b) = (if b = 0 then NaN else inf_of_sign (0 < b))"
| "num_mul NInf (Fin b) = (if b = 0 then NaN else inf_of_sign (b < 0))"
| "num_mul PInf PInf = PInf"
| "num_mul PInf NInf = NInf"
| "num_mul NInf PInf = NInf"
| "num_mul NInf NInf = PInf"

fun num_div :: "number \<Rightarrow> number \<Rightarrow> number" where
  "num_div NaN _ = NaN"
| "num_div _ NaN = NaN"
| "num_div (Fin a) (Fin b) =
     (if b = 0 then (if a = 0 then NaN else inf_of_sign (0 < a)) else fl (a / b))"
| "num_div (Fin _) _ = Fin 0"
| "num_div PInf (Fin b) = inf_of_sign (0 \<le> b)"
| "num_div NInf (Fin b) = inf_of_sign (b < 0)"
| "num_div _ _ = NaN"

fun num_sqrt :: "number \<Rightarrow> number" where
  "num_sqrt (Fin a) = (if a < 0 then NaN else fl (sqrt a))"
| "num_sqrt PInf = PInf"
| "num_sqrt _ = NaN"

fun num_floor :: "number \<Rightarrow> number" where
  "num_floor (Fin a) = Fin (of_int \<lfloor>a\<rfloor>)"
| "num_floor x = x"

fun num_trunc :: "number \<Rightarrow> number" where
  "num_trunc (Fin a) = Fin (of_int (if 0 \<le> a then \<lfloor>a\<rfloor> else \<lceil>a\<rceil>))"
| "num_trunc x = x"

fun is_finite :: "number \<Rightarrow> bool" where
  "is_finite (Fin _) = True"
| "is_finite _ = False"


fun num_le :: "number \<Rightarrow> number \<Rightarrow> bool" where
  "num_le (Fin a) (Fin b) = (a \<le> b)"
| "num_le NInf (Fin _) = True"
| "num_le NInf PInf = True"
| "num_le (Fin _) PInf = True"
| "num_le NInf NInf = True"
| "num_le PInf PInf = True"
| "num_le _ _ = False"


section \<open>Issuance and burn (EquilibriumWidget.tsx)\<close>

text \<open>
  The constants \<open>GWEI_PER_ETH\<close> and \<open>WEI_PER_ETH\<close> are imported from the module
  \<open>eth-units\<close>; they are parameters \<open>g\<close> and \<open>w\<close> of the functions that use them.
\<close>

definition YEAR_IN_MINUTES :: number where
  "YEAR_IN_MINUTES = num_mul (num_mul (Fin 365.25) (Fin 24)) (Fin 60)"

definition burnAsFraction :: "real \<Rightarrow> number \<Rightarrow> number \<Rightarrow> number" where
  "burnAsFraction w nonStakingSupply weiBurnPerMinute =
     num_div (num_mul (num_div weiBurnPerMinute (Fin w)) YEAR_IN_MINUTES) nonStakingSupply"

definition MAX_EFFECTIVE_BALANCE :: "real \<Rightarrow> number" where
  "MAX_EFFECTIVE_BALANCE g = num_mul (Fin 32) (Fin g)"

definition SECONDS_PER_SLOT :: number where
  "SECONDS_PER_SLOT = Fin 12"

definition SLOTS_PER_EPOCH :: number where
  "SLOTS_PER_EPOCH = Fin 32"

definition EPOCHS_PER_DAY :: number where
  "EPOCHS_PER_DAY =
     num_div (num_div (num_mul (num_mul (Fin 24) (Fin 60)) (Fin 60)) SLOTS_PER_EPOCH)
             SECONDS_PER_SLOT"

definition EPOCHS_PER_YEAR :: number where
  "EPOCHS_PER_YEAR = num_mul (Fin 365.25) EPOCHS_PER_DAY"

definition BASE_REWARD_FACTOR :: number where
  "BASE_REWARD_FACTOR = Fin 64"

definition getIssuance :: "real \<Rightarrow> number \<Rightarrow> number" where
  "getIssuance g effective_balance_sum =
     (let total_effective_balance = num_mul effective_balance_sum (Fin g);
          active_validators = num_div (num_div total_effective_balance (Fin g)) (Fin 32);
          max_balance_at_stake = num_mul active_validators (MAX_EFFECTIVE_BALANCE g);
          max_issuance_per_epoch =
            num_trunc (num_div (num_mul BASE_REWARD_FACTOR max_balance_at_stake)
                               (num_floor (num_sqrt max_balance_at_stake)));
          max_issuance_per_year = num_mul max_issuance_per_epoch EPOCHS_PER_YEAR
      in num_div max_issuance_per_year (Fin g))"

definition getBurn :: "number \<Rightarrow> number \<Rightarrow> number" where
  "getBurn yearlyNonStakedBurnFraction nonStakedSupply =
     num_mul yearlyNonStakedBurnFraction nonStakedSupply"

text \<open>
  The value of the local variable \<open>max_balance_at_stake\<close> of \<open>getIssuance\<close>: the staked
  supply converted to Gwei, to a count of validators of 32 ETH and back to Gwei.
\<close>

definition max_balance_at_stake :: "real \<Rightarrow> number \<Rightarrow> number" where
  "max_balance_at_stake g effective_balance_sum =
     num_mul (num_div (num_div (num_mul effective_balance_sum (Fin g)) (Fin g)) (Fin 32))
             (MAX_EFFECTIVE_BALANCE g)"




section \<open>Dates (the date-fns calls of EquilibriumWidget.tsx)\<close>

text \<open>
  A date is its time value, the milliseconds since 1970-01-01T00:00:00Z. The calls
  \<open>getMonth\<close> and \<open>addYears\<close> read and write the fields of the date in the local time of
  the host. The host's time zone is the parameter \<open>zone\<close>, the function \<open>LocalTZA\<close> of
  ECMAScript: \<open>zone t True\<close> is the offset of local time from UTC, in milliseconds, at the
  UTC time \<open>t\<close>, and \<open>zone t False\<close> is the offset at the local time \<open>t\<close>. The offset may
  change with \<open>t\<close>, as it does where daylight-saving time is observed; \<open>fixed_zone\<close> is a
  zone whose offset never changes. A \<open>Date\<close> converts with \<open>LocalTime\<close> and \<open>UTC\<close>.
  Timestamps of the series are whole seconds: \<open>fromUnixTime\<close> multiplies by 1000 and
  \<open>getUnixTime\<close> divides by 1000, rounding down.

  \<open>days_from_civil\<close> and \<open>civil_from_days\<close> convert between a day number (days since
  1970-01-01) and a date of the proleptic Gregorian calendar, months counted from 1.
  Internally the year starts on 1 March, so that a leap day is the last day of its year;
  day 0 of that count is 0000-03-01, which is 719468 days before 1970-01-01.
\<close>

type_synonym time_zone = "int \<Rightarrow> bool \<Rightarrow> int"

definition fixed_zone :: "int \<Rightarrow> time_zone" where
  "fixed_zone offset = (\<lambda>t isUTC. offset)"

definition LocalTime :: "time_zone \<Rightarrow> int \<Rightarrow> int" where
  "LocalTime zone t = t + zone t True"

definition UTC :: "time_zone \<Rightarrow> int \<Rightarrow> int" where
  "UTC zone t = t - zone t False"

definition MS_PER_DAY :: int where
  "MS_PER_DAY = 86400000"

definition days_from_civil :: "int \<Rightarrow> int \<Rightarrow> int \<Rightarrow> int" where
  "days_from_civil y m d =
     (let y' = (if m \<le> 2 then y - 1 else y);
          mp = (if 2 < m then m - 3 else m + 9);
          doy = (153 * mp + 2) div 5 + d - 1
      in 365 * y' + y' div 4 - y' div 100 + y' div 400 + doy - 719468)"

definition civil_from_days :: "int \<Rightarrow> int \<times> int \<times> int" where
  "civil_from_days z =
     (let z0 = z + 719468;
          era = z0 div 146097;
          doe = z0 mod 146097;
          c = min (doe div 36524) 3;
          doc = doe - c * 36524;
          q = doc div 1461;
          doq = doc mod 1461;
          yr = min (doq div 365) 3;
          doy = doq - yr * 365;
          mp = (5 * doy + 2) div 153;
          d = doy - (153 * mp + 2) div 5 + 1;
          m = (if mp < 10 then mp + 3 else mp - 9);
          y = era * 400 + c * 100 + q * 4 + yr
      in (if m \<le> 2 then y + 1 else y, m, d))"

definition is_leap_year :: "int \<Rightarrow> bool" where
  "is_leap_year y = (y mod 4 = 0 \<and> (y mod 100 \<noteq> 0 \<or> y mod 400 = 0))"

definition days_in_month :: "int \<Rightarrow> int \<Rightarrow> int" where
  "days_in_month y m =
     (if m = 2 then (if is_leap_year y then 29 else 28)
      else if m = 4 \<or> m = 6 \<or> m = 9 \<or> m = 11 then 30 else 31)"

definition fromUnixTime :: "int \<Rightarrow> int" where
  "fromUnixTime unixTime = unixTime * 1000"

definition getUnixTime :: "int \<Rightarrow> int" where
  "getUnixTime date = date div 1000"

definition local_fields :: "time_zone \<Rightarrow> int \<Rightarrow> int \<times> int \<times> int" where
  "local_fields zone date = civil_from_days (LocalTime zone date div MS_PER_DAY)"

definition local_time_in_day :: "time_zone \<Rightarrow> int \<Rightarrow> int" where
  "local_time_in_day zone date = LocalTime zone date mod MS_PER_DAY"

definition getMonth :: "time_zone \<Rightarrow> int \<Rightarrow> int" where
  \<comment> \<open>months are counted from 0 by \<open>getMonth\<close>\<close>
  "getMonth zone date = (case local_fields zone date of (y, m, d) \<Rightarrow> m - 1)"

definition addMonths :: "time_zone \<Rightarrow> int \<Rightarrow> int \<Rightarrow> int" where
  \<comment> \<open>the day of the month is kept unless the target month is shorter, then its last day
      is taken; the local time of day is kept, and the new local time is converted back\<close>
  "addMonths zone date amount =
     (if amount = 0 then date
      else case local_fields zone date of (y, m, dayOfMonth) \<Rightarrow>
        (let months = (m - 1) + amount;
             y' = y + months div 12;
             m' = months mod 12 + 1;
             daysInMonth = days_in_month y' m';
             d' = (if daysInMonth \<le> dayOfMonth then daysInMonth else dayOfMonth)
         in UTC zone (days_from_civil y' m' d' * MS_PER_DAY + local_time_in_day zone date)))"

definition addYears :: "time_zone \<Rightarrow> int \<Rightarrow> int \<Rightarrow> int" where
  "addYears zone date amount = addMonths zone date (amount * 12)"

section \<open>The equilibrium projection (EquilibriumWidget.tsx)\<close>

type_synonym Point = "int \<times> number"

record DataPoint =
  dp_t :: int
  dp_v :: number

record SupplyInputs =
  supplyByDay :: "DataPoint list"
  inBeaconValidatorsByDay :: "DataPoint list"

datatype error = TypeError

text \<open>
  \<open>NEA.last\<close> and lodash's \<open>last\<close> read the element at index \<open>length - 1\<close>; on an empty
  array that is \<open>undefined\<close>, and reading a field of it throws a TypeError.
\<close>

definition NEA_last :: "'a list \<Rightarrow> 'a option" where
  "NEA_last as = (if as = [] then None else Some (last as))"

definition lodash_last :: "'a list \<Rightarrow> 'a option" where
  "lodash_last array = (if array = [] then None else Some (last array))"

definition getStakingSupply :: "SupplyInputs \<Rightarrow> error + number" where
  "getStakingSupply supplyProjectionInputs =
     (case NEA_last (inBeaconValidatorsByDay supplyProjectionInputs) of
        None \<Rightarrow> Inl TypeError
      | Some dataPoint \<Rightarrow> Inr (dp_v dataPoint))"

definition getNonStakingSupply :: "SupplyInputs \<Rightarrow> error + number" where
  "getNonStakingSupply supplyProjectionInputs =
     (case NEA_last (supplyByDay supplyProjectionInputs) of
        None \<Rightarrow> Inl TypeError
      | Some s \<Rightarrow>
        (case NEA_last (inBeaconValidatorsByDay supplyProjectionInputs) of
           None \<Rightarrow> Inl TypeError
         | Some b \<Rightarrow> Inr (num_sub (dp_v s) (dp_v b))))"

definition month_reducer :: "time_zone \<Rightarrow> Point list \<Rightarrow> DataPoint \<Rightarrow> Point list" where
  "month_reducer zone list point =
     (case lodash_last list of
        None \<Rightarrow> [(dp_t point, dp_v point)]
      | Some l \<Rightarrow>
          if getMonth zone (fromUnixTime (fst l)) \<noteq> getMonth zone (fromUnixTime (dp_t point))
          then list @ [(dp_t point, dp_v point)]
          else list)"

definition historicSupplyByMonth :: "time_zone \<Rightarrow> SupplyInputs option \<Rightarrow> Point list option" where
  "historicSupplyByMonth zone supplyProjectionInputs =
     (case supplyProjectionInputs of
        None \<Rightarrow> None
      | Some inputs \<Rightarrow> Some (foldl (month_reducer zone) [] (supplyByDay inputs)))"

record loop_state =
  ls_supply :: Point
  ls_series :: "Point list"
  ls_nonStaked :: number

definition initial_loop_state :: "Point list \<Rightarrow> Point \<Rightarrow> number \<Rightarrow> loop_state" where
  "initial_loop_state series supply staked =
     \<lparr>ls_supply = supply, ls_series = series, ls_nonStaked = num_sub (snd supply) staked\<rparr>"

definition loop_body :: "time_zone \<Rightarrow> number \<Rightarrow> number \<Rightarrow> number \<Rightarrow> loop_state \<Rightarrow> loop_state" where
  "loop_body zone fraction staked issuance st =
     (let nextYear = addYears zone (fromUnixTime (fst (ls_supply st))) 1;
          burn = getBurn fraction (ls_nonStaked st);
          supply = (getUnixTime nextYear, num_sub (num_add (snd (ls_supply st)) issuance) burn)
      in \<lparr>ls_supply = supply,
          ls_series = ls_series st @ [supply],
          ls_nonStaked = num_sub (snd supply) staked\<rparr>)"

function for_loop ::
  "time_zone \<Rightarrow> number \<Rightarrow> number \<Rightarrow> number \<Rightarrow> nat \<Rightarrow> loop_state \<Rightarrow> loop_state" where
  "for_loop zone fraction staked issuance i st =
     (if i < 200
      then for_loop zone fraction staked issuance (i + 1) (loop_body zone fraction staked issuance st)
      else st)"
  by pat_completeness auto
termination
  by (relation "measure (\<lambda>(zone, fraction, staked, issuance, i, st). 200 - i)") auto

definition series_map :: "Point list \<Rightarrow> (int \<rightharpoonup> number)" where
  "series_map series = foldl (\<lambda>m (t, v). m(t \<mapsto> v)) Map.empty series"

record equilibria =
  cashFlowsEquilibrium :: number
  nonStakedSupplyEquilibrium :: number
  supplyEquilibrium :: number
  supplyEquilibriumMap :: "int \<rightharpoonup> number"
  supplyEquilibriumSeries :: "Point list"
  yearlyIssuanceFraction :: number

text \<open>
  The body of the memo \<open>equilibriums\<close>, as a function of its four dependencies. The
  result is \<open>Inr None\<close> where the source returns \<open>undefined\<close> and \<open>Inl TypeError\<close> where
  it throws (an empty series, which the type \<open>NonEmptyArray\<close> rules out).
\<close>

definition equilibriums_memo ::
  "time_zone \<Rightarrow> real \<Rightarrow> number option \<Rightarrow> number option \<Rightarrow> SupplyInputs option \<Rightarrow>
   Point list option \<Rightarrow> error + equilibria option" where
  "equilibriums_memo zone g stakedSupply' nonStakedSupplyBurnFraction' supplyProjectionInputs'
       historicSupplyByMonth' =
     (if stakedSupply' = None \<or> nonStakedSupplyBurnFraction' = None \<or>
         supplyProjectionInputs' = None \<or> historicSupplyByMonth' = None
      then Inr None
      else
        let series0 = the historicSupplyByMonth';
            staked = the stakedSupply'
        in case NEA_last series0 of
             None \<Rightarrow> Inl TypeError
           | Some supply0 \<Rightarrow>
              (let issuance = getIssuance g staked;
                   fin = for_loop zone (the nonStakedSupplyBurnFraction') staked issuance 0
                           (initial_loop_state series0 supply0 staked)
               in Inr (Some
                    \<lparr>cashFlowsEquilibrium = getIssuance g staked,
                     nonStakedSupplyEquilibrium = ls_nonStaked fin,
                     supplyEquilibrium = snd (ls_supply fin),
                     supplyEquilibriumMap = series_map (ls_series fin),
                     supplyEquilibriumSeries = ls_series fin,
                     yearlyIssuanceFraction = num_div (getIssuance g staked) staked\<rparr>)))"

subsection \<open>The component: state, effect, memos and rendering\<close>

text \<open>
  The values of the hooks: the burn rate of the analysis snapshot, the supply-projection
  inputs, the three pieces of component state and the two breakpoints.
\<close>

record widget_state =
  burnRateAll :: "number option"
  supplyProjectionInputs :: "SupplyInputs option"
  initialEquilibriumInputsSet :: bool
  stakedSupply :: number
  nonStakedSupplyBurnFraction :: number
  md :: bool
  lg :: bool

definition initial_widget_state ::
  "number option \<Rightarrow> SupplyInputs option \<Rightarrow> bool \<Rightarrow> bool \<Rightarrow> widget_state" where
  "initial_widget_state burn inputs m l =
     \<lparr>burnRateAll = burn, supplyProjectionInputs = inputs,
      initialEquilibriumInputsSet = False, stakedSupply = Fin 0,
      nonStakedSupplyBurnFraction = Fin 0, md = m, lg = l\<rparr>"

definition initial_inputs_effect :: "real \<Rightarrow> widget_state \<Rightarrow> error + widget_state" where
  "initial_inputs_effect w st =
     (if burnRateAll st = None \<or> supplyProjectionInputs st = None \<or>
         initialEquilibriumInputsSet st
      then Inr st
      else
        case getStakingSupply (the (supplyProjectionInputs st)) of
          Inl e \<Rightarrow> Inl e
        | Inr staking \<Rightarrow>
           (case getNonStakingSupply (the (supplyProjectionInputs st)) of
              Inl e \<Rightarrow> Inl e
            | Inr nonStaked \<Rightarrow>
                Inr (st\<lparr>initialEquilibriumInputsSet := True,
                        stakedSupply := staking,
                        nonStakedSupplyBurnFraction :=
                          burnAsFraction w nonStaked (the (burnRateAll st))\<rparr>)))"

definition equilibriums :: "time_zone \<Rightarrow> real \<Rightarrow> widget_state \<Rightarrow> error + equilibria option" where
  "equilibriums zone g st =
     equilibriums_memo zone g (Some (stakedSupply st)) (Some (nonStakedSupplyBurnFraction st))
       (supplyProjectionInputs st) (historicSupplyByMonth zone (supplyProjectionInputs st))"

text \<open>
  The rendered widget, reduced to what depends on the data: the graph or the text
  \<open>loading...\<close> in the graph's place, and the numbers handed to the formatters (the module
  \<open>format\<close> is not part of the sources), \<open>None\<close> where the source passes \<open>undefined\<close>.
\<close>

datatype graph_slot =
    EquilibriumGraph "Point list" "int \<rightharpoonup> number" "real option" "real option" nat
  | Loading nat

record widget_view =
  view_graph :: graph_slot
  view_supplyEquilibrium :: "number option"
  view_cashFlowsEquilibrium :: "number option"
  view_yearlyIssuanceFraction :: "number option"
  view_stakedSupply :: "number option"
  view_burnFraction :: "number option"
  view_nonStakedSupplyEquilibrium :: "number option"
  view_thumbVisible :: bool

definition render :: "time_zone \<Rightarrow> real \<Rightarrow> widget_state \<Rightarrow> error + widget_view" where
  "render zone g st =
     (case equilibriums zone g st of
        Inl e \<Rightarrow> Inl e
      | Inr eq \<Rightarrow>
         Inr \<lparr>view_graph =
                (if eq \<noteq> None
                 then EquilibriumGraph (supplyEquilibriumSeries (the eq))
                        (supplyEquilibriumMap (the eq))
                        (if lg st then Some 0.4 else if md st then Some 0.7 else None)
                        (if lg st then Some 0.4 else if md st then Some 0.7 else None)
                        (if lg st then 220 else 160)
                 else Loading (if lg st then 220 else 160)),
              view_supplyEquilibrium =
                (if eq \<noteq> None then Some (num_div (supplyEquilibrium (the eq)) (Fin 1000000))
                 else None),
              view_cashFlowsEquilibrium =
                (if eq \<noteq> None then Some (num_div (cashFlowsEquilibrium (the eq)) (Fin 1000000))
                 else None),
              view_yearlyIssuanceFraction =
                (if eq \<noteq> None then Some (yearlyIssuanceFraction (the eq)) else None),
              view_stakedSupply = Some (num_div (stakedSupply st) (Fin 1000000)),
              view_burnFraction = Some (nonStakedSupplyBurnFraction st),
              view_nonStakedSupplyEquilibrium =
                (if eq \<noteq> None
                 then Some (num_div (nonStakedSupplyEquilibrium (the eq)) (Fin 1000000))
                 else None),
              view_thumbVisible = initialEquilibriumInputsSet st\<rparr>)"

text \<open>
  The burn fraction of the specification's example: the binary64 value nearest to 0.01,
  which is what the literal \<open>0.01\<close> denotes.
\<close>

definition one_percent :: real where
  "one_percent = 5764607523034235 / 2 ^ 59"

text \<open>
  The state of the loop after \<open>n\<close> passes through its body, and three inputs used as
  examples: the figures of the specification's example (110,000,000 ETH in all, of which
  10,000,000 are staked), as a single day, as two days of different months, and as two
  days at the end of a month.
\<close>

definition after_years ::
  "time_zone \<Rightarrow> number \<Rightarrow> number \<Rightarrow> number \<Rightarrow> loop_state \<Rightarrow> nat \<Rightarrow> loop_state" where
  "after_years zone fraction staked issuance st0 n =
     (loop_body zone fraction staked issuance ^^ n) st0"

definition series_length :: "error + equilibria option \<Rightarrow> nat option" where
  "series_length res =
     (case res of
        Inr (Some r) \<Rightarrow> Some (length (supplyEquilibriumSeries r))
      | _ \<Rightarrow> None)"

definition example_inputs :: SupplyInputs where
  "example_inputs =
     \<lparr>supplyByDay = [\<lparr>dp_t = 1640995200, dp_v = Fin 110000000\<rparr>],
      inBeaconValidatorsByDay = [\<lparr>dp_t = 1640995200, dp_v = Fin 10000000\<rparr>]\<rparr>"

definition two_month_inputs :: SupplyInputs where
  "two_month_inputs =
     \<lparr>supplyByDay = [\<lparr>dp_t = 1640995200, dp_v = Fin 110000000\<rparr>,
                     \<lparr>dp_t = 1643673600, dp_v = Fin 110000000\<rparr>],
      inBeaconValidatorsByDay = [\<lparr>dp_t = 1643673600, dp_v = Fin 10000000\<rparr>]\<rparr>"

definition month_end_inputs :: SupplyInputs where
  \<comment> \<open>31 January 2022 at 22:00 and at 23:30 UTC\<close>
  "month_end_inputs =
     \<lparr>supplyByDay = [\<lparr>dp_t = 1643666400, dp_v = Fin 110000000\<rparr>,
                     \<lparr>dp_t = 1643671800, dp_v = Fin 110000000\<rparr>],
      inBeaconValidatorsByDay = [\<lparr>dp_t = 1643671800, dp_v = Fin 10000000\<rparr>]\<rparr>"

definition example_hist :: "Point list" where
  "example_hist = [(1640995200, Fin 110000000)]"

text \<open>
  Whether the place of the graph holds the text \<open>loading...\<close>, and three states of the
  component: nothing loaded yet, the supply inputs loaded but not the analysis, and a
  loaded widget whose supply series has two days at the end of a month.
\<close>

definition graph_is_loading :: "error + widget_view \<Rightarrow> bool option" where
  "graph_is_loading res =
     (case res of
        Inl e \<Rightarrow> None
      | Inr view \<Rightarrow>
          (case view_graph view of
             Loading h \<Rightarrow> Some True
           | EquilibriumGraph series m wmin wmax h \<Rightarrow> Some False))"

definition nothing_loaded_state :: widget_state where
  "nothing_loaded_state = initial_widget_state None None False False"

definition analysis_missing_state :: widget_state where
  "analysis_missing_state = initial_widget_state None (Some example_inputs) False False"

definition month_end_state :: widget_state where
  "month_end_state =
     \<lparr>burnRateAll = Some (Fin 1), supplyProjectionInputs = Some month_end_inputs,
      initialEquilibriumInputsSet = True, stakedSupply = Fin 10000000,
      nonStakedSupplyBurnFraction = Fin one_percent, md = False, lg = False\<rparr>"

subsection \<open>The memo on a store of arrays\<close>

text \<open>
  Arrays are objects: the memo receives \<open>historicSupplyByMonth\<close> as a reference to an array
  that the rest of the program holds too, the spread \<open>[...historicSupplyByMonth]\<close> allocates
  a new array with the same elements, and \<open>push\<close> changes an array in place. A store maps
  references to the contents of the arrays; \<open>fresh\<close> is the next reference to be allocated.
  Spreading a reference that holds no array throws a TypeError.
\<close>

type_synonym ref = nat

record store =
  arrays :: "ref \<Rightarrow> Point list option"
  fresh :: ref

definition spread :: "ref \<Rightarrow> store \<Rightarrow> (ref \<times> store) option" where
  "spread a s =
     (case arrays s a of
        None \<Rightarrow> None
      | Some xs \<Rightarrow> Some (fresh s, s\<lparr>arrays := (arrays s)(fresh s \<mapsto> xs), fresh := Suc (fresh s)\<rparr>))"

definition push :: "ref \<Rightarrow> Point \<Rightarrow> store \<Rightarrow> store" where
  "push a p s =
     (case arrays s a of
        None \<Rightarrow> s
      | Some xs \<Rightarrow> s\<lparr>arrays := (arrays s)(a \<mapsto> xs @ [p])\<rparr>)"

record store_loop_state =
  sl_supply :: Point
  sl_nonStaked :: number
  sl_store :: store

definition loop_body_store ::
  "time_zone \<Rightarrow> number \<Rightarrow> number \<Rightarrow> number \<Rightarrow> ref \<Rightarrow> store_loop_state \<Rightarrow> store_loop_state" where
  "loop_body_store zone fraction staked issuance supplyEquilibriumSeries' st =
     (let nextYear = addYears zone (fromUnixTime (fst (sl_supply st))) 1;
          burn = getBurn fraction (sl_nonStaked st);
          supply = (getUnixTime nextYear, num_sub (num_add (snd (sl_supply st)) issuance) burn)
      in \<lparr>sl_supply = supply,
          sl_nonStaked = num_sub (snd supply) staked,
          sl_store = push supplyEquilibriumSeries' supply (sl_store st)\<rparr>)"

function for_loop_store ::
  "time_zone \<Rightarrow> number \<Rightarrow> number \<Rightarrow> number \<Rightarrow> ref \<Rightarrow> nat \<Rightarrow> store_loop_state \<Rightarrow>
   store_loop_state" where
  "for_loop_store zone fraction staked issuance a i st =
     (if i < 200
      then for_loop_store zone fraction staked issuance a (i + 1)
             (loop_body_store zone fraction staked issuance a st)
      else st)"
  by pat_completeness auto
termination
  by (relation "measure (\<lambda>(zone, fraction, staked, issuance, a, i, st). 200 - i)") auto

text \<open>The object that the memo returns: its series is a reference into the store.\<close>

record equilibria_object =
  o_cashFlowsEquilibrium :: number
  o_nonStakedSupplyEquilibrium :: number
  o_supplyEquilibrium :: number
  o_supplyEquilibriumMap :: "int \<rightharpoonup> number"
  o_supplyEquilibriumSeries :: ref
  o_yearlyIssuanceFraction :: number

definition equilibriums_memo_store ::
  "time_zone \<Rightarrow> real \<Rightarrow> number option \<Rightarrow> number option \<Rightarrow> SupplyInputs option \<Rightarrow>
   ref option \<Rightarrow> store \<Rightarrow> error + (equilibria_object option \<times> store)" where
  "equilibriums_memo_store zone g stakedSupply' nonStakedSupplyBurnFraction'
       supplyProjectionInputs' historicSupplyByMonth' s =
     (if stakedSupply' = None \<or> nonStakedSupplyBurnFraction' = None \<or>
         supplyProjectionInputs' = None \<or> historicSupplyByMonth' = None
      then Inr (None, s)
      else
        case spread (the historicSupplyByMonth') s of
          None \<Rightarrow> Inl TypeError
        | Some (series, s1) \<Rightarrow>
           (case NEA_last (the (arrays s1 series)) of
              None \<Rightarrow> Inl TypeError
            | Some supply0 \<Rightarrow>
               (let staked = the stakedSupply';
                    issuance = getIssuance g staked;
                    fin = for_loop_store zone (the nonStakedSupplyBurnFraction') staked issuance
                            series 0
                            \<lparr>sl_supply = supply0, sl_nonStaked = num_sub (snd supply0) staked,
                             sl_store = s1\<rparr>
                in Inr (Some
                     \<lparr>o_cashFlowsEquilibrium = getIssuance g staked,
                      o_nonStakedSupplyEquilibrium = sl_nonStaked fin,
                      o_supplyEquilibrium = snd (sl_supply fin),
                      o_supplyEquilibriumMap = series_map (the (arrays (sl_store fin) series)),
                      o_supplyEquilibriumSeries = series,
                      o_yearlyIssuanceFraction = num_div (getIssuance g staked) staked\<rparr>,
                     sl_store fin))))"

text \<open>
  What a caller sees of a result: the error, \<open>undefined\<close>, or the fields of the object with
  the contents of its series.
\<close>

definition result_contents ::
  "error + (equilibria_object option \<times> store) \<Rightarrow> error + equilibria option" where
  "result_contents res =
     (case res of
        Inl e \<Rightarrow> Inl e
      | Inr (None, s) \<Rightarrow> Inr None
      | Inr (Some ob, s) \<Rightarrow>
          Inr (Some
            \<lparr>cashFlowsEquilibrium = o_cashFlowsEquilibrium ob,
             nonStakedSupplyEquilibrium = o_nonStakedSupplyEquilibrium ob,
             supplyEquilibrium = o_supplyEquilibrium ob,
             supplyEquilibriumMap = o_supplyEquilibriumMap ob,
             supplyEquilibriumSeries = the (arrays s (o_supplyEquilibriumSeries ob)),
             yearlyIssuanceFraction = o_yearlyIssuanceFraction ob\<rparr>))"

definition store_after :: "error + (equilibria_object option \<times> store) \<Rightarrow> store option" where
  "store_after res = (case res of Inl e \<Rightarrow> None | Inr (ob, s) \<Rightarrow> Some s)"

text \<open>
  The state of the loop on the store after \<open>n\<close> passes, and two stores used as examples:
  one that holds the historic series of the example alone, and one that holds it at
  another reference, beside an array of its own.
\<close>

definition after_years_store ::
  "time_zone \<Rightarrow> number \<Rightarrow> number \<Rightarrow> number \<Rightarrow> ref \<Rightarrow> store_loop_state \<Rightarrow> nat \<Rightarrow>
   store_loop_state" where
  "after_years_store zone fraction staked issuance a st0 n =
     (loop_body_store zone fraction staked issuance a ^^ n) st0"

definition example_store :: store where
  "example_store = \<lparr>arrays = Map.empty(0 \<mapsto> example_hist), fresh = 1\<rparr>"

definition other_store :: store where
  "other_store =
     \<lparr>arrays = Map.empty(0 \<mapsto> [(0, Fin 1)], 1 \<mapsto> example_hist), fresh = 2\<rparr>"

subsection \<open>Values read off a result\<close>





section \<open>The alarm dialog of the top bar (TopBar)\<close>

text \<open>
  The dialog is shown or hidden by the boolean state \<open>showAlarmDialog\<close>, initially
  \<open>false\<close>. The DOM is a type of nodes \<open>'n\<close> with the relation \<open>contains\<close>; a click carries
  its target, which may be \<open>null\<close>, and the two refs are \<open>null\<close> until the elements are
  mounted. A handler's result is the argument of its call of \<open>setShowAlarmDialog\<close>, or
  \<open>None\<close> when it returns without calling it.
\<close>

definition showAlarmDialog_initial :: bool where
  "showAlarmDialog_initial = False"

definition checkIfClickedOutside ::
  "('n \<Rightarrow> 'n \<Rightarrow> bool) \<Rightarrow> 'n option \<Rightarrow> 'n option \<Rightarrow> bool \<Rightarrow> 'n option \<Rightarrow> bool option" where
  "checkIfClickedOutside contains dialogRef alarmButtonRef showAlarmDialog target =
     (if \<not> showAlarmDialog \<or> target = None \<or>
         (dialogRef \<noteq> None \<and> contains (the dialogRef) (the target)) \<or>
         (alarmButtonRef \<noteq> None \<and> contains (the alarmButtonRef) (the target))
      then None
      else Some False)"

definition handleClickAlarm :: "bool \<Rightarrow> bool option" where
  "handleClickAlarm showAlarmDialog = Some (\<not> showAlarmDialog)"

text \<open>
  One click anywhere in the document. The button's \<open>onClick\<close> runs when the target is the
  button or a node inside it; the listener on the document runs for every click. Both
  handlers were created by the same render and read its value of \<open>showAlarmDialog\<close>; the
  state after the click is the argument of the last call of the setter, if any.
\<close>

definition click ::
  "('n \<Rightarrow> 'n \<Rightarrow> bool) \<Rightarrow> 'n option \<Rightarrow> 'n option \<Rightarrow> bool \<Rightarrow> 'n option \<Rightarrow> bool" where
  "click contains dialogRef alarmButtonRef showAlarmDialog target =
     (let onButton = (target \<noteq> None \<and> alarmButtonRef \<noteq> None \<and>
                      contains (the alarmButtonRef) (the target));
          fromButton = (if onButton then handleClickAlarm showAlarmDialog else None);
          fromDocument =
            checkIfClickedOutside contains dialogRef alarmButtonRef showAlarmDialog target
      in case fromDocument of
           Some v \<Rightarrow> v
         | None \<Rightarrow> (case fromButton of Some v \<Rightarrow> v | None \<Rightarrow> showAlarmDialog))"

text \<open>The elements of the top bar that matter for a click, and which contains which.\<close>

datatype top_bar_node = AlarmButton | BellIcon | Dialog | GasAlarmInput | EthAlarmInput | JoinLink

fun top_bar_contains :: "top_bar_node \<Rightarrow> top_bar_node \<Rightarrow> bool" where
  "top_bar_contains AlarmButton x = (x = AlarmButton \<or> x = BellIcon)"
| "top_bar_contains Dialog x = (x = Dialog \<or> x = GasAlarmInput \<or> x = EthAlarmInput)"
| "top_bar_contains y x = (y = x)"

section \<open>The alarm preferences of the top bar (TopBar, use-local-storage)\<close>

text \<open>
  Modelled from the spec: the hook \<open>useLocalStorage\<close> of the module \<open>use-local-storage\<close> and
  the component \<open>AlarmInput\<close>, neither of which is part of the sources. By the
  specification an alarm preference is a boolean kept in the browser's local storage, read
  when the component mounts and written when the preference is toggled. The keys and the
  initial value \<open>false\<close> are those of the two calls in \<open>TopBar\<close>.
\<close>

type_synonym local_storage = "string \<rightharpoonup> bool"

definition useLocalStorage_read :: "local_storage \<Rightarrow> string \<Rightarrow> bool \<Rightarrow> bool" where
  "useLocalStorage_read store key initialValue =
     (case store key of None \<Rightarrow> initialValue | Some v \<Rightarrow> v)"

definition useLocalStorage_write :: "local_storage \<Rightarrow> string \<Rightarrow> bool \<Rightarrow> local_storage" where
  "useLocalStorage_write store key v = store(key \<mapsto> v)"

record alarm_prefs =
  gasAlarmActive :: bool
  ethAlarmActive :: bool

definition mount_alarms :: "local_storage \<Rightarrow> alarm_prefs" where
  "mount_alarms store =
     \<lparr>gasAlarmActive = useLocalStorage_read store ''gas-alarm-enabled'' False,
      ethAlarmActive = useLocalStorage_read store ''eth-alarm-enabled'' False\<rparr>"

datatype alarm_event = SetGasAlarmActive bool | SetEthAlarmActive bool

fun alarm_step :: "local_storage \<times> alarm_prefs \<Rightarrow> alarm_event \<Rightarrow> local_storage \<times> alarm_prefs" where
  "alarm_step (store, prefs) (SetGasAlarmActive b) =
     (useLocalStorage_write store ''gas-alarm-enabled'' b, prefs\<lparr>gasAlarmActive := b\<rparr>)"
| "alarm_step (store, prefs) (SetEthAlarmActive b) =
     (useLocalStorage_write store ''eth-alarm-enabled'' b, prefs\<lparr>ethAlarmActive := b\<rparr>)"

definition toggle_gas :: "alarm_prefs \<Rightarrow> alarm_event" where
  "toggle_gas prefs = SetGasAlarmActive (\<not> gasAlarmActive prefs)"

definition toggle_eth :: "alarm_prefs \<Rightarrow> alarm_event" where
  "toggle_eth prefs = SetEthAlarmActive (\<not> ethAlarmActive prefs)"

definition alarm_run :: "local_storage \<Rightarrow> alarm_event list \<Rightarrow> local_storage \<times> alarm_prefs" where
  "alarm_run store events = foldl alarm_step (store, mount_alarms store) events"

fun last_gas_write :: "alarm_event list \<Rightarrow> bool option" where
  "last_gas_write [] = None"
| "last_gas_write (SetGasAlarmActive b # es) =
     (case last_gas_write es of None \<Rightarrow> Some b | Some b' \<Rightarrow> Some b')"
| "last_gas_write (SetEthAlarmActive b # es) = last_gas_write es"

fun last_eth_write :: "alarm_event list \<Rightarrow> bool option" where
  "last_eth_write [] = None"
| "last_eth_write (SetEthAlarmActive b # es) =
     (case last_eth_write es of None \<Rightarrow> Some b | Some b' \<Rightarrow> Some b')"
| "last_eth_write (SetGasAlarmActive b # es) = last_eth_write es"

section \<open>Facts about the rounding\<close>

lemma pow2_powr: "pow2 k = 2 powr (real_of_int k)"
  by (simp add: pow2_def powr_int)

lemma pow2_pos: "0 < pow2 k"
  by (simp add: pow2_powr)

lemma pow2_add: "pow2 (a + b) = pow2 a * pow2 b"
  by (simp add: pow2_powr powr_add)

lemma pow2_diff: "pow2 (a - b) = pow2 a / pow2 b"
  by (simp add: pow2_powr powr_diff)

lemma pow2_le: "pow2 a \<le> pow2 b \<longleftrightarrow> a \<le> b"
  by (simp add: pow2_powr)

lemma pow2_less: "pow2 a < pow2 b \<longleftrightarrow> a < b"
  by (simp add: pow2_powr)

lemma pow2_nonneg_int: "0 \<le> k \<Longrightarrow> pow2 k = real_of_int (2 ^ nat k)"
  by (simp add: pow2_def)

lemma binade_bounds:
  assumes "x \<noteq> 0"
  shows "pow2 (binade x) \<le> \<bar>x\<bar>" and "\<bar>x\<bar> < pow2 (binade x + 1)"
proof -
  have p: "0 < \<bar>x\<bar>" using assms by simp
  have "real_of_int (binade x) \<le> log 2 \<bar>x\<bar>" by (simp add: binade_def)
  then show "pow2 (binade x) \<le> \<bar>x\<bar>"
    unfolding pow2_powr using le_log_iff[of 2 "\<bar>x\<bar>" "real_of_int (binade x)"] p by simp
  have "log 2 \<bar>x\<bar> < real_of_int (binade x + 1)" by (simp add: binade_def)
  then show "\<bar>x\<bar> < pow2 (binade x + 1)"
    unfolding pow2_powr using log_less_iff[of 2 "\<bar>x\<bar>" "real_of_int (binade x + 1)"] p by simp
qed



lemma round_to_even_int: "round_to_even (real_of_int n) = n"
  by (simp add: round_to_even_def)












lemma fl_zero: "fl 0 = Fin 0"
  using pow2_pos[of 1024] by (simp add: fl_def nearest_on_grid_def)

lemma fl_exact:
  assumes "x = real_of_int m * pow2 k" and "\<bar>m\<bar> < 2 ^ 53" and "- 1074 \<le> k" and "k \<le> 971"
  shows "fl x = Fin x"
proof (cases "m = 0")
  case True
  then show ?thesis using assms(1) by (simp add: fl_zero)
next
  case False
  then have x0: "x \<noteq> 0" using assms(1) pow2_pos[of k] by simp
  have m1: "1 \<le> \<bar>real_of_int m\<bar>" using False by (simp add: abs_if) 
  have ax: "\<bar>x\<bar> = \<bar>real_of_int m\<bar> * pow2 k"
    using pow2_pos[of k] by (simp add: assms(1) abs_mult)
  have "\<bar>real_of_int m\<bar> < 2 ^ 53" using assms(2) by (metis of_int_abs of_int_less_numeral_power_cancel_iff)
  then have "\<bar>x\<bar> < 2 ^ 53 * pow2 k"
    unfolding ax using pow2_pos[of k] by (simp add: mult_strict_right_mono)
  also have "(2::real) ^ 53 * pow2 k = pow2 (53 + k)"
    using pow2_add[of 53 k] by (simp add: pow2_def)
  finally have up: "\<bar>x\<bar> < pow2 (53 + k)" .
  define e where "e = binade x"
  have "pow2 e \<le> \<bar>x\<bar>" unfolding e_def by (rule binade_bounds(1)[OF x0])
  then have "pow2 e < pow2 (53 + k)" using up by linarith
  then have e: "e < 53 + k" by (simp add: pow2_less)
  define u where "u = max e (- 1022) - 52"
  have u: "0 \<le> k - u" using e assms(3) by (simp add: u_def)
  have "x / pow2 u = real_of_int m * pow2 (k - u)" by (simp add: assms(1) pow2_diff)
  also have "\<dots> = real_of_int (m * 2 ^ nat (k - u))" using pow2_nonneg_int[OF u] by simp
  finally have q: "x / pow2 u = real_of_int (m * 2 ^ nat (k - u))" .
  have "nearest_on_grid x = real_of_int (round_to_even (x / pow2 u)) * pow2 u"
    using x0 by (simp add: nearest_on_grid_def ulp_exponent_def e_def u_def)
  also have "\<dots> = (x / pow2 u) * pow2 u" unfolding q round_to_even_int ..
  also have "\<dots> = x" using pow2_pos[of u] by simp
  finally have g: "nearest_on_grid x = x" .
  have "pow2 (53 + k) \<le> pow2 1024" using assms(4) by (simp add: pow2_le)
  then have "\<bar>x\<bar> < pow2 1024" using up by linarith
  then show ?thesis by (simp add: fl_def g)
qed

lemma fl_int:
  assumes "\<bar>n\<bar> < 2 ^ 53"
  shows "fl (real_of_int n) = Fin (real_of_int n)"
  using assms by (intro fl_exact[of _ n 0]) (simp_all add: pow2_def)

section \<open>Facts about the arithmetic and the issuance\<close>


lemma fl_not_NaN [simp]: "fl x \<noteq> NaN"
  by (simp add: fl_def Let_def)



lemma num_le_refl: "x \<noteq> NaN \<Longrightarrow> num_le x x"
  by (cases x) simp_all



lemma num_le_not_NaN: "num_le x y \<Longrightarrow> x \<noteq> NaN \<and> y \<noteq> NaN"
  by (cases x; cases y) simp_all





lemma YEAR_IN_MINUTES_value: "YEAR_IN_MINUTES = Fin 525960"
  using fl_int[of 8766] fl_int[of 525960] by (simp add: YEAR_IN_MINUTES_def)

lemma EPOCHS_PER_DAY_value: "EPOCHS_PER_DAY = Fin 225"
  using fl_int[of 1440] fl_int[of 86400] fl_int[of 2700] fl_int[of 225]
  by (simp add: EPOCHS_PER_DAY_def SLOTS_PER_EPOCH_def SECONDS_PER_SLOT_def)

lemma fl_82181_25: "fl 82181.25 = Fin 82181.25"
  by (rule fl_exact[of _ 328725 "- 2"]) (simp_all add: pow2_def)

lemma EPOCHS_PER_YEAR_value: "EPOCHS_PER_YEAR = Fin 82181.25"
  using fl_82181_25 by (simp add: EPOCHS_PER_YEAR_def EPOCHS_PER_DAY_value)

lemma MAX_EFFECTIVE_BALANCE_gwei: "MAX_EFFECTIVE_BALANCE 1000000000 = Fin 32000000000"
  using fl_int[of 32000000000] by (simp add: MAX_EFFECTIVE_BALANCE_def)

lemma getIssuance_balance:
  "getIssuance g s =
     num_div (num_mul (num_trunc (num_div (num_mul (Fin 64) (max_balance_at_stake g s))
                                          (num_floor (num_sqrt (max_balance_at_stake g s)))))
                      (Fin 82181.25))
             (Fin g)"
  by (simp add: getIssuance_def max_balance_at_stake_def Let_def BASE_REWARD_FACTOR_def
      EPOCHS_PER_YEAR_value)



lemma fl_1e16: "fl 10000000000000000 = Fin 10000000000000000"
  by (rule fl_exact[of _ 152587890625 16]) (simp_all add: pow2_def)

lemma balance_ten_million:
  "max_balance_at_stake 1000000000 (Fin 10000000) = Fin 10000000000000000"
  using fl_1e16 fl_int[of 10000000] fl_int[of 312500]
  by (simp add: max_balance_at_stake_def MAX_EFFECTIVE_BALANCE_gwei)

lemma sqrt_1e16: "sqrt 10000000000000000 = 100000000"
  by (rule real_sqrt_unique) simp_all


lemma fl_64e16: "fl 640000000000000000 = Fin 640000000000000000"
  by (rule fl_exact[of _ 152587890625 22]) (simp_all add: pow2_def)

lemma getIssuance_ten_million: "getIssuance 1000000000 (Fin 10000000) = Fin 525960"
  unfolding getIssuance_balance balance_ten_million
  using fl_64e16 fl_int[of 100000000] fl_int[of 6400000000] fl_int[of 525960000000000]
    fl_int[of 525960]
  by (simp add: sqrt_1e16)

lemma getIssuance_zero: "getIssuance g (Fin 0) = NaN"
proof -
  have m: "num_mul (Fin 0) (Fin g) = Fin 0" by (simp add: fl_zero)
  have d: "num_div (Fin 0) (Fin g) = Fin 0 \<or> num_div (Fin 0) (Fin g) = NaN"
    by (simp add: fl_zero)
  have d32: "num_div (Fin 0) (Fin 32) = Fin 0" by (simp add: fl_zero)
  have z: "\<And>y. num_mul (Fin 0) y = Fin 0 \<or> num_mul (Fin 0) y = NaN"
  proof -
    fix y show "num_mul (Fin 0) y = Fin 0 \<or> num_mul (Fin 0) y = NaN"
      by (cases y) (simp_all add: fl_zero)
  qed
  have b: "max_balance_at_stake g (Fin 0) = Fin 0 \<or> max_balance_at_stake g (Fin 0) = NaN"
    unfolding max_balance_at_stake_def m using d z[of "MAX_EFFECTIVE_BALANCE g"]
    by (auto simp: d32)
  then show ?thesis
    unfolding getIssuance_balance by (auto simp: fl_zero)
qed





















section \<open>Facts about the calendar\<close>

lemma century_bounds:
  fixes doe :: int
  assumes "0 \<le> doe" "doe < 146097"
  defines "c \<equiv> min (doe div 36524) 3"
  shows "0 \<le> c" "c \<le> 3" "0 \<le> doe - c * 36524" "doe - c * 36524 \<le> 36524"
proof -
  have d0: "0 \<le> doe div 36524" using assms(1) by (simp add: pos_imp_zdiv_nonneg_iff)
  show "0 \<le> c" using d0 by (simp add: c_def)
  show "c \<le> 3" by (simp add: c_def)
  have m: "doe = (doe div 36524) * 36524 + doe mod 36524" by simp
  have mb: "0 \<le> doe mod 36524" "doe mod 36524 < 36524" by simp_all
  show "0 \<le> doe - c * 36524" using m mb d0 unfolding c_def min_def by (auto; linarith)
  show "doe - c * 36524 \<le> 36524" using m mb d0 assms unfolding c_def min_def by (auto; linarith)
qed

lemma year_bounds:
  fixes doq :: int
  assumes "0 \<le> doq" "doq < 1461"
  defines "yr \<equiv> min (doq div 365) 3"
  shows "0 \<le> yr" "yr \<le> 3" "0 \<le> doq - yr * 365" "doq - yr * 365 \<le> 365"
proof -
  have d0: "0 \<le> doq div 365" using assms(1) by (simp add: pos_imp_zdiv_nonneg_iff)
  show "0 \<le> yr" using d0 by (simp add: yr_def)
  show "yr \<le> 3" by (simp add: yr_def)
  have m: "doq = (doq div 365) * 365 + doq mod 365" by simp
  have mb: "0 \<le> doq mod 365" "doq mod 365 < 365" by simp_all
  show "0 \<le> doq - yr * 365" using m mb d0 unfolding yr_def min_def by (auto; linarith)
  show "doq - yr * 365 \<le> 365" using m mb d0 assms unfolding yr_def min_def by (auto; linarith)
qed

lemma month_bounds:
  fixes doy :: int
  assumes "0 \<le> doy" "doy \<le> 365"
  defines "mp \<equiv> (5 * doy + 2) div 153"
  shows "0 \<le> mp" "mp \<le> 11" "0 \<le> doy - (153 * mp + 2) div 5" "doy - (153 * mp + 2) div 5 \<le> 30"
proof -
  show "0 \<le> mp" using assms(1) by (simp add: mp_def pos_imp_zdiv_nonneg_iff)
  have "5 * doy + 2 \<le> 1827" using assms(2) by linarith
  then have "(5 * doy + 2) div 153 \<le> 1827 div 153" by (rule zdiv_mono1) simp
  then show "mp \<le> 11" by (simp add: mp_def)
  have a0: "5 * doy + 2 = mp * 153 + (5 * doy + 2) mod 153" by (simp add: mp_def)
  have a1: "0 \<le> (5 * doy + 2) mod 153" "(5 * doy + 2) mod 153 < 153" by simp_all
  have a: "153 * mp \<le> 5 * doy + 2" "5 * doy + 2 < 153 * mp + 153"
    using a0 a1 by linarith+
  have b0: "153 * mp + 2 = ((153 * mp + 2) div 5) * 5 + (153 * mp + 2) mod 5" by simp
  have b1: "0 \<le> (153 * mp + 2) mod 5" "(153 * mp + 2) mod 5 < 5" by simp_all
  have b: "5 * ((153 * mp + 2) div 5) \<le> 153 * mp + 2" "153 * mp + 2 < 5 * ((153 * mp + 2) div 5) + 5"
    using b0 b1 by linarith+
  show "0 \<le> doy - (153 * mp + 2) div 5" using a b by linarith
  show "doy - (153 * mp + 2) div 5 \<le> 30" using a b by linarith
qed


lemma div_decomp:
  fixes r :: int
  assumes "0 \<le> r" "r < n"
  shows "(k * n + r) div n = k"
  using assms by (simp add: div_pos_pos_trivial)

lemma civil_roundtrip:
  assumes "civil_from_days z = (y, m, d)"
  shows "days_from_civil y m d = z" and "1 \<le> m" and "m \<le> 12" and "1 \<le> d" and "d \<le> 31"
proof -
  define z0 where "z0 = z + 719468"
  define era where "era = z0 div 146097"
  define doe where "doe = z0 mod 146097"
  define c where "c = min (doe div 36524) 3"
  define doc where "doc = doe - c * 36524"
  define q where "q = doc div 1461"
  define doq where "doq = doc mod 1461"
  define yr where "yr = min (doq div 365) 3"
  define doy where "doy = doq - yr * 365"
  define mp where "mp = (5 * doy + 2) div 153"
  define Y where "Y = era * 400 + c * 100 + q * 4 + yr"
  have doe: "0 \<le> doe" "doe < 146097" by (simp_all add: doe_def)
  note cb = century_bounds[OF doe, folded c_def doc_def]
  have doq: "0 \<le> doq" "doq < 1461" by (simp_all add: doq_def)
  note yb = year_bounds[OF doq, folded yr_def doy_def]
  note mb = month_bounds[OF yb(3,4), folded mp_def]
  have qb: "0 \<le> q" "q \<le> 24"
  proof -
    show "0 \<le> q" using cb(3) by (simp add: q_def pos_imp_zdiv_nonneg_iff)
    have "doc div 1461 \<le> 36524 div 1461" using cb(4) by (rule zdiv_mono1) simp
    then show "q \<le> 24" by (simp add: q_def)
  qed
  have docq: "doc = q * 1461 + doq" by (simp add: q_def doq_def)
  have m_eq: "m = (if mp < 10 then mp + 3 else mp - 9)"
    and d_eq: "d = doy - (153 * mp + 2) div 5 + 1"
    and y_eq: "y = (if m \<le> 2 then Y + 1 else Y)"
    using assms
    unfolding civil_from_days_def Let_def z0_def[symmetric] era_def[symmetric] doe_def[symmetric]
      c_def[symmetric] doc_def[symmetric] q_def[symmetric] doq_def[symmetric] yr_def[symmetric]
      doy_def[symmetric] mp_def[symmetric] Y_def
    by auto
  show "1 \<le> m" "m \<le> 12" using mb(1,2) by (auto simp: m_eq)
  show "1 \<le> d" "d \<le> 31" using mb(3,4) by (auto simp: d_eq)
  have y': "(if m \<le> 2 then y - 1 else y) = Y" by (simp add: y_eq)
  have mp': "(if 2 < m then m - 3 else m + 9) = mp" using mb(1,2) by (auto simp: m_eq)
  have "Y = (era * 100 + c * 25 + q) * 4 + yr" by (simp add: Y_def)
  then have Y4: "Y div 4 = era * 100 + c * 25 + q"
    using div_decomp[of yr 4] yb(1,2) by simp
  have "Y = (era * 4 + c) * 100 + (q * 4 + yr)" by (simp add: Y_def)
  then have Y100: "Y div 100 = era * 4 + c"
    using div_decomp[of "q * 4 + yr" 100] yb(1,2) qb by simp
  have "Y = era * 400 + (c * 100 + q * 4 + yr)" by (simp add: Y_def)
  then have Y400: "Y div 400 = era"
    using div_decomp[of "c * 100 + q * 4 + yr" 400] yb(1,2) qb cb(1,2) by simp
  have "days_from_civil y m d = 365 * Y + Y div 4 - Y div 100 + Y div 400 + doy - 719468"
    unfolding days_from_civil_def Let_def y' mp' by (simp add: d_eq)
  also have "\<dots> = era * 146097 + doe - 719468"
    unfolding Y4 Y100 Y400 using docq by (simp add: Y_def doc_def doy_def)
  also have "\<dots> = z" by (simp add: era_def doe_def z0_def)
  finally show "days_from_civil y m d = z" .
qed


lemma days_in_month_ge: "28 \<le> days_in_month y m"
  by (simp add: days_in_month_def)

lemma div_succ:
  fixes k n :: int
  assumes "0 < n"
  shows "(k + 1) div n = k div n + (if (k + 1) mod n = 0 then 1 else 0)"
proof -
  define q where "q = k div n"
  define r where "r = k mod n"
  have k: "k = q * n + r" by (simp add: q_def r_def)
  have r: "0 \<le> r" "r < n" using assms by (simp_all add: r_def)
  show ?thesis
  proof (cases "r + 1 = n")
    case True
    then have "k + 1 = (q + 1) * n" using k by (simp add: algebra_simps)
    then show ?thesis using assms by (simp add: q_def[symmetric])
  next
    case False
    then have r1: "0 \<le> r + 1" "r + 1 < n" using r by simp_all
    have e: "k + 1 = q * n + (r + 1)" using k by simp
    have d: "(k + 1) div n = q" unfolding e using r1 by (rule div_decomp)
    have "(k + 1) mod n = r + 1" unfolding e using r1 by (simp add: mod_pos_pos_trivial)
    then have "(k + 1) mod n \<noteq> 0" using r by simp
    then show ?thesis using d by (simp add: q_def)
  qed
qed

lemma leap_count:
  fixes k :: int
  shows "(if k mod 4 = 0 then 1 else 0) - (if k mod 100 = 0 then 1 else 0) + (if k mod 400 = 0 then 1 else (0::int))
         = (if is_leap_year k then 1 else 0)"
proof -
  have a: "k mod 100 = 0" if "k mod 400 = 0"
  proof -
    have "400 dvd k" using that by (simp only: dvd_eq_mod_eq_0)
    moreover have "(100::int) dvd 400" by simp
    ultimately have "100 dvd k" by (metis dvd_trans)
    then show ?thesis by (simp only: dvd_eq_mod_eq_0)
  qed
  have b: "k mod 4 = 0" if "k mod 100 = 0"
  proof -
    have "100 dvd k" using that by (simp only: dvd_eq_mod_eq_0)
    moreover have "(4::int) dvd 100" by simp
    ultimately have "4 dvd k" by (metis dvd_trans)
    then show ?thesis by (simp only: dvd_eq_mod_eq_0)
  qed
  show ?thesis
  proof (cases "k mod 4 = 0")
    case False
    then have h1: "k mod 100 \<noteq> 0" using b by iprover
    then have "k mod 400 \<noteq> 0" using a by iprover
    with h1 have "k mod 100 \<noteq> 0" "k mod 400 \<noteq> 0" by -
    then show ?thesis using False by (simp add: is_leap_year_def)
  next
    case True
    show ?thesis
    proof (cases "k mod 100 = 0")
      case False
      then have "k mod 400 \<noteq> 0" using a by iprover
      then show ?thesis using True False by (simp add: is_leap_year_def)
    next
      case h: True
      show ?thesis using True h by (simp add: is_leap_year_def)
    qed
  qed
qed

lemma mod_decomp:
  fixes r :: int
  assumes "0 \<le> r" "r < n"
  shows "(k * n + r) mod n = r"
  using assms by (simp add: mod_pos_pos_trivial)

lemma year_start_exact:
  fixes Y :: int
  shows "365 * (Y + 1) + (Y + 1) div 4 - (Y + 1) div 100 + (Y + 1) div 400 =
         365 * Y + Y div 4 - Y div 100 + Y div 400 + 365 + (if is_leap_year (Y + 1) then 1 else 0)"
proof -
  define a where "a = (if (Y + 1) mod 4 = 0 then 1 else (0::int))"
  define b where "b = (if (Y + 1) mod 100 = 0 then 1 else (0::int))"
  define c where "c = (if (Y + 1) mod 400 = 0 then 1 else (0::int))"
  define l where "l = (if is_leap_year (Y + 1) then 1 else (0::int))"
  have l: "a - b + c = l" unfolding a_def b_def c_def l_def by (rule leap_count)
  have 4: "(Y + 1) div 4 = Y div 4 + a" unfolding a_def by (rule div_succ) simp
  have 100: "(Y + 1) div 100 = Y div 100 + b" unfolding b_def by (rule div_succ) simp
  have 400: "(Y + 1) div 400 = Y div 400 + c" unfolding c_def by (rule div_succ) simp
  show ?thesis unfolding 4 100 400 l_def[symmetric] using l by (simp add: algebra_simps)
qed

lemma leap_not_consecutive:
  assumes "is_leap_year y"
  shows "\<not> is_leap_year (y + 1)"
proof -
  have "y mod 4 = 0" using assms by (simp add: is_leap_year_def)
  then have "(y + 1) mod 4 = 1" by presburger
  then show ?thesis by (simp add: is_leap_year_def)
qed

lemma year_bounds_last_day:
  fixes doq :: int
  assumes "0 \<le> doq" "doq < 1461" "doq - min (doq div 365) 3 * 365 = 365"
  shows "min (doq div 365) 3 = 3 \<and> doq = 1460"
proof -
  have m: "doq = (doq div 365) * 365 + doq mod 365" by simp
  have mb: "0 \<le> doq mod 365" "doq mod 365 < 365" by simp_all
  have d0: "0 \<le> doq div 365" using assms(1) by (simp add: pos_imp_zdiv_nonneg_iff)
  show ?thesis
  proof (cases "doq div 365 < 3")
    case True
    then have "min (doq div 365) 3 = doq div 365" by simp
    then have "doq - (doq div 365) * 365 = 365" using assms(3) by simp
    then show ?thesis using m mb by linarith
  next
    case False
    then have "min (doq div 365) 3 = 3" by simp
    then show ?thesis using assms by simp
  qed
qed

lemma century_last_day:
  fixes doe :: int
  assumes "0 \<le> doe" "doe - min (doe div 36524) 3 * 36524 = 36524"
  shows "min (doe div 36524) 3 = 3"
proof (rule ccontr)
  assume "min (doe div 36524) 3 \<noteq> 3"
  then have "min (doe div 36524) 3 = doe div 36524" by (simp add: min_def split: if_splits)
  then have e: "doe - (doe div 36524) * 36524 = 36524" using assms(2) by simp
  have m: "doe = (doe div 36524) * 36524 + doe mod 36524" by simp
  have mb: "doe mod 36524 < 36524" by simp
  show False using e m mb by linarith
qed

lemma leap_of_last_day:
  fixes era c q :: int
  assumes "0 \<le> q" "q \<le> 24" "q < 24 \<or> c = 3"
  shows "is_leap_year (era * 400 + c * 100 + q * 4 + 3 + 1)"
proof -
  define k where "k = era * 400 + c * 100 + q * 4 + 3 + 1"
  have k4: "k = (era * 100 + c * 25 + q + 1) * 4 + 0" by (simp add: k_def)
  have m4: "k mod 4 = 0" unfolding k4 by simp
  show ?thesis
  proof (cases "q < 24")
    case True
    have k100: "k = (era * 4 + c) * 100 + (q * 4 + 4)" by (simp add: k_def)
    have "0 \<le> q * 4 + 4" "q * 4 + 4 < 100" using assms(1) True by simp_all
    then have "k mod 100 = q * 4 + 4"
      unfolding k100 by (rule mod_decomp)
    then have "k mod 100 \<noteq> 0" using assms(1) by simp
    then show ?thesis using m4 by (simp add: is_leap_year_def k_def)
  next
    case False
    then have "q = 24" "c = 3" using assms by simp_all
    then have "k = (era + 1) * 400 + 0" by (simp add: k_def)
    then have "k mod 400 = 0" by simp
    then show ?thesis using m4 by (simp add: is_leap_year_def k_def)
  qed
qed

lemma month_length:
  fixes mp :: int
  assumes "0 \<le> mp" "mp \<le> 10"
  shows "(153 * (mp + 1) + 2) div 5 - (153 * mp + 2) div 5 =
         days_in_month y (if mp < 10 then mp + 3 else mp - 9)"
proof -
  have "mp = 0 \<or> mp = 1 \<or> mp = 2 \<or> mp = 3 \<or> mp = 4 \<or> mp = 5 \<or> mp = 6 \<or> mp = 7 \<or>
        mp = 8 \<or> mp = 9 \<or> mp = 10"
    using assms by presburger
  then show ?thesis
    by (elim disjE) (simp_all add: days_in_month_def)
qed

lemma civil_valid_day:
  assumes "civil_from_days z = (y, m, d)"
  shows "d \<le> days_in_month y m"
proof -
  define z0 where "z0 = z + 719468"
  define era where "era = z0 div 146097"
  define doe where "doe = z0 mod 146097"
  define c where "c = min (doe div 36524) 3"
  define doc where "doc = doe - c * 36524"
  define q where "q = doc div 1461"
  define doq where "doq = doc mod 1461"
  define yr where "yr = min (doq div 365) 3"
  define doy where "doy = doq - yr * 365"
  define mp where "mp = (5 * doy + 2) div 153"
  define Y where "Y = era * 400 + c * 100 + q * 4 + yr"
  have doe: "0 \<le> doe" "doe < 146097" by (simp_all add: doe_def)
  note cb = century_bounds[OF doe, folded c_def doc_def]
  have doq: "0 \<le> doq" "doq < 1461" by (simp_all add: doq_def)
  note yb = year_bounds[OF doq, folded yr_def doy_def]
  note mb = month_bounds[OF yb(3,4), folded mp_def]
  have qb: "0 \<le> q" "q \<le> 24"
  proof -
    show "0 \<le> q" using cb(3) by (simp add: q_def pos_imp_zdiv_nonneg_iff)
    have "doc div 1461 \<le> 36524 div 1461" using cb(4) by (rule zdiv_mono1) simp
    then show "q \<le> 24" by (simp add: q_def)
  qed
  have docq: "doc = q * 1461 + doq" by (simp add: q_def doq_def)
  have m_eq: "m = (if mp < 10 then mp + 3 else mp - 9)"
    and d_eq: "d = doy - (153 * mp + 2) div 5 + 1"
    and y_eq: "y = (if m \<le> 2 then Y + 1 else Y)"
    using assms
    unfolding civil_from_days_def Let_def z0_def[symmetric] era_def[symmetric] doe_def[symmetric]
      c_def[symmetric] doc_def[symmetric] q_def[symmetric] doq_def[symmetric] yr_def[symmetric]
      doy_def[symmetric] mp_def[symmetric] Y_def
    by auto
  show ?thesis
  proof (cases "mp \<le> 10")
    case True
    define r where "r = (5 * doy + 2) mod 153"
    have a0: "5 * doy + 2 = mp * 153 + r" by (simp add: mp_def r_def)
    have a1: "r < 153" by (simp add: r_def)
    have "5 * doy + 5 \<le> 153 * mp + 155" using a0 a1 by linarith
    then have "5 * (doy + 1) \<le> 153 * (mp + 1) + 2" by (simp add: algebra_simps)
    then have "5 * (doy + 1) div 5 \<le> (153 * (mp + 1) + 2) div 5" by (rule zdiv_mono1) simp
    then have nxt: "doy + 1 \<le> (153 * (mp + 1) + 2) div 5" by simp
    have "d \<le> (153 * (mp + 1) + 2) div 5 - (153 * mp + 2) div 5"
      using nxt by (simp add: d_eq)
    then show ?thesis
      unfolding month_length[OF mb(1) True, of y] m_eq .
  next
    case False
    then have mp: "mp = 11" using mb(2) by simp
    then have m2: "m = 2" by (simp add: m_eq)
    have y1: "y = Y + 1" using m2 by (simp add: y_eq)
    have d: "d = doy - 336" by (simp add: d_eq mp)
    show ?thesis
    proof (cases "doy = 365")
      case False
      then have "doy \<le> 364" using yb(4) by simp
      then have "d \<le> 28" using d by simp
      then show ?thesis using days_in_month_ge[of y m] by linarith
    next
      case True
      then have l: "yr = 3 \<and> doq = 1460"
        using year_bounds_last_day[OF doq] by (simp add: doy_def yr_def)
      have qc: "q < 24 \<or> c = 3"
      proof (cases "q < 24")
        case True
        then show ?thesis by simp
      next
        case False
        then have "q = 24" using qb by simp
        then have "doc = 36524" using docq l by simp
        then have "c = 3"
          using century_last_day[OF doe(1)] by (simp add: doc_def c_def)
        then show ?thesis by simp
      qed
      have "is_leap_year (era * 400 + c * 100 + q * 4 + 3 + 1)"
        using qb qc by (rule leap_of_last_day)
      then have "is_leap_year y" using l by (simp add: y1 Y_def)
      then have "days_in_month y m = 29" by (simp add: days_in_month_def m2)
      then show ?thesis using d True by simp
    qed
  qed
qed

lemma addYears_local:
  "addYears zone date 1 = UTC zone (LocalTime zone date + 365 * MS_PER_DAY) \<or>
   addYears zone date 1 = UTC zone (LocalTime zone date + 366 * MS_PER_DAY)"
proof -
  obtain y m d where f: "local_fields zone date = (y, m, d)"
    by (cases "local_fields zone date") auto
  define z where "z = LocalTime zone date div MS_PER_DAY"
  have c: "civil_from_days z = (y, m, d)" using f by (simp add: local_fields_def z_def)
  note r = civil_roundtrip[OF c]
  note v = civil_valid_day[OF c]
  define dim where "dim = days_in_month (y + 1) m"
  define d' where "d' = (if dim \<le> d then dim else d)"
  have months: "(m - 1 + 12) div 12 = 1" "(m - 1 + 12) mod 12 + 1 = m"
    using r(2,3) by presburger+
  have eq: "addYears zone date 1 =
      UTC zone (days_from_civil (y + 1) m d' * MS_PER_DAY + local_time_in_day zone date)"
    unfolding addYears_def addMonths_def using f months by (simp add: Let_def d'_def dim_def)
  define Y where "Y = (if m \<le> 2 then y - 1 else y)"
  define E0 where "E0 = 365 * Y + Y div 4 - Y div 100 + Y div 400"
  define E1 where "E1 = 365 * (Y + 1) + (Y + 1) div 4 - (Y + 1) div 100 + (Y + 1) div 400"
  define l where "l = (if is_leap_year (Y + 1) then 1 else (0::int))"
  have E: "E1 = E0 + 365 + l" unfolding E0_def E1_def l_def by (rule year_start_exact)
  define doy0 where "doy0 = (153 * (if 2 < m then m - 3 else m + 9) + 2) div 5"
  have D0: "days_from_civil y m d = E0 + (doy0 + d - 1) - 719468"
    by (simp add: days_from_civil_def Let_def Y_def doy0_def E0_def)
  have Y1: "(if m \<le> 2 then y + 1 - 1 else y + 1) = Y + 1" by (simp add: Y_def)
  have D1: "days_from_civil (y + 1) m d' = E1 + (doy0 + d' - 1) - 719468"
    unfolding days_from_civil_def Let_def Y1 E1_def by (simp add: doy0_def)
  have delta: "d' + l = d \<or> d' + l = d + 1"
  proof (cases "m = 2")
    case False
    then have "dim = days_in_month y m" by (simp add: dim_def days_in_month_def)
    then have "d' = d" using v by (simp add: d'_def)
    then show ?thesis by (simp add: l_def)
  next
    case True
    then have Yy: "Y + 1 = y" by (simp add: Y_def)
    show ?thesis
    proof (cases "is_leap_year y")
      case False
      then have "d \<le> 28" using v True by (simp add: days_in_month_def)
      moreover have "28 \<le> dim" unfolding dim_def by (rule days_in_month_ge)
      ultimately have "d' = d" by (simp add: d'_def)
      then show ?thesis using False by (simp add: l_def Yy)
    next
      case leap: True
      then have n: "\<not> is_leap_year (y + 1)" by (rule leap_not_consecutive)
      then have dim28: "dim = 28" by (simp add: dim_def days_in_month_def True)
      have d29: "d \<le> 29" using v True leap by (simp add: days_in_month_def)
      have l1: "l = 1" using leap by (simp add: l_def Yy)
      show ?thesis
      proof (cases "d = 29")
        case True
        then have "d' = 28" by (simp add: d'_def dim28)
        then show ?thesis using True l1 by simp
      next
        case False
        then have "d \<le> 28" using d29 by simp
        then have "d' = d" by (simp add: d'_def dim28)
        then show ?thesis using l1 by simp
      qed
    qed
  qed
  have days: "days_from_civil (y + 1) m d' = z + 365 \<or> days_from_civil (y + 1) m d' = z + 366"
    using E delta r(1) D0 D1 by linarith
  have loc: "LocalTime zone date = z * MS_PER_DAY + local_time_in_day zone date"
    by (simp add: z_def local_time_in_day_def)
  from days show ?thesis
  proof
    assume "days_from_civil (y + 1) m d' = z + 365"
    then have "days_from_civil (y + 1) m d' * MS_PER_DAY + local_time_in_day zone date =
        LocalTime zone date + 365 * MS_PER_DAY"
      unfolding loc by (simp add: algebra_simps)
    then show ?thesis unfolding eq by simp
  next
    assume "days_from_civil (y + 1) m d' = z + 366"
    then have "days_from_civil (y + 1) m d' * MS_PER_DAY + local_time_in_day zone date =
        LocalTime zone date + 366 * MS_PER_DAY"
      unfolding loc by (simp add: algebra_simps)
    then show ?thesis unfolding eq by simp
  qed
qed

lemma addYears_exact:
  assumes "\<forall>t b. zone t b = k"
  shows "addYears zone date 1 = date + 365 * MS_PER_DAY \<or>
         addYears zone date 1 = date + 366 * MS_PER_DAY"
  using addYears_local[of zone date] assms by (simp add: UTC_def LocalTime_def)

lemma addYears_later:
  assumes "\<forall>t b. \<bar>zone t b\<bar> \<le> MS_PER_DAY"
  shows "date + 363 * MS_PER_DAY \<le> addYears zone date 1"
proof -
  have a: "\<bar>zone date True\<bar> \<le> MS_PER_DAY" using assms by blast
  have b: "\<And>t. \<bar>zone t False\<bar> \<le> MS_PER_DAY" using assms by blast
  have c: "\<And>n. date + n * MS_PER_DAY - 2 * MS_PER_DAY \<le> UTC zone (LocalTime zone date + n * MS_PER_DAY)"
  proof -
    fix n
    show "date + n * MS_PER_DAY - 2 * MS_PER_DAY \<le> UTC zone (LocalTime zone date + n * MS_PER_DAY)"
      unfolding UTC_def LocalTime_def
      using a b[of "date + zone date True + n * MS_PER_DAY"] by linarith
  qed
  have m: "0 < MS_PER_DAY" by (simp add: MS_PER_DAY_def)
  show ?thesis
    using addYears_local[of zone date] c[of 365] c[of 366] m by (elim disjE) simp_all
qed

lemma next_timestamp_exact:
  assumes "\<forall>t b. zone t b = k"
  shows "getUnixTime (addYears zone (fromUnixTime t) 1) = t + 365 * 86400 \<or>
         getUnixTime (addYears zone (fromUnixTime t) 1) = t + 366 * 86400"
proof -
  have "addYears zone (fromUnixTime t) 1 = (t + 365 * 86400) * 1000 \<or>
        addYears zone (fromUnixTime t) 1 = (t + 366 * 86400) * 1000"
    using addYears_exact[OF assms, of "fromUnixTime t"] by (simp add: fromUnixTime_def MS_PER_DAY_def)
  then show ?thesis unfolding getUnixTime_def by (elim disjE) simp_all
qed

lemma next_timestamp_later:
  assumes "\<forall>t b. \<bar>zone t b\<bar> \<le> MS_PER_DAY"
  shows "t < getUnixTime (addYears zone (fromUnixTime t) 1)"
proof -
  have "(t + 1) * 1000 \<le> addYears zone (fromUnixTime t) 1"
    using addYears_later[OF assms, of "fromUnixTime t"] by (simp add: fromUnixTime_def MS_PER_DAY_def)
  then have "((t + 1) * 1000) div 1000 \<le> addYears zone (fromUnixTime t) 1 div 1000"
    by (rule zdiv_mono1) simp
  then show ?thesis by (simp add: getUnixTime_def)
qed

section \<open>Facts about the projection loop\<close>

lemma for_loop_funpow:
  "for_loop zone fraction staked issuance i st =
     (loop_body zone fraction staked issuance ^^ (200 - i)) st"
proof (induction zone fraction staked issuance i st rule: for_loop.induct)
  case (1 zone fraction staked issuance i st)
  show ?case
  proof (cases "i < 200")
    case True
    then have s: "200 - i = Suc (200 - (i + 1))" by simp
    show ?thesis
      using True "1.IH"[OF True]
      by (subst for_loop.simps, subst s) (simp add: funpow_swap1 del: for_loop.simps)
  next
    case False
    then show ?thesis by (subst for_loop.simps) simp
  qed
qed

lemma for_loop_after_years:
  "for_loop zone fraction staked issuance 0 st = after_years zone fraction staked issuance st 200"
  by (simp add: for_loop_funpow after_years_def del: for_loop.simps)

lemma after_years_0: "after_years zone fraction staked issuance st 0 = st"
  by (simp add: after_years_def)

lemma after_years_Suc:
  "after_years zone fraction staked issuance st (Suc n) =
     loop_body zone fraction staked issuance (after_years zone fraction staked issuance st n)"
  by (simp add: after_years_def)

lemma loop_body_supply:
  "ls_supply (loop_body zone fraction staked issuance st) =
     (getUnixTime (addYears zone (fromUnixTime (fst (ls_supply st))) 1),
      num_sub (num_add (snd (ls_supply st)) issuance) (getBurn fraction (ls_nonStaked st)))"
  by (simp add: loop_body_def Let_def)

lemma loop_body_series:
  "ls_series (loop_body zone fraction staked issuance st) =
     ls_series st @ [ls_supply (loop_body zone fraction staked issuance st)]"
  by (simp add: loop_body_def Let_def)

lemma loop_body_nonStaked:
  "ls_nonStaked (loop_body zone fraction staked issuance st) =
     num_sub (snd (ls_supply (loop_body zone fraction staked issuance st))) staked"
  by (simp add: loop_body_def Let_def)

lemma after_years_length:
  "length (ls_series (after_years zone fraction staked issuance st n)) = length (ls_series st) + n"
  by (induction n) (simp_all add: after_years_0 after_years_Suc loop_body_series)

lemma after_years_prefix:
  "take (length (ls_series st)) (ls_series (after_years zone fraction staked issuance st n)) = ls_series st"
  by (induction n) (simp_all add: after_years_0 after_years_Suc loop_body_series after_years_length)

lemma after_years_nth:
  "i < n \<Longrightarrow>
   ls_series (after_years zone fraction staked issuance st n) ! (length (ls_series st) + i) =
     ls_supply (after_years zone fraction staked issuance st (Suc i))"
proof (induction n)
  case 0
  then show ?case by simp
next
  case (Suc n)
  show ?case
  proof (cases "i = n")
    case True
    then show ?thesis
      by (simp add: after_years_Suc[of _ _ _ _ _ n] loop_body_series after_years_length nth_append)
  next
    case False
    then have "i < n" using Suc.prems by simp
    then show ?thesis
      using Suc.IH
      by (simp add: after_years_Suc[of _ _ _ _ _ n] loop_body_series after_years_length nth_append)
  qed
qed

lemma after_years_nth_init:
  assumes "ls_series st \<noteq> []" and "ls_supply st = last (ls_series st)"
  shows "ls_series (after_years zone fraction staked issuance st n) ! (length (ls_series st) - 1) = ls_supply st"
proof -
  have "length (ls_series st) - 1 < length (ls_series st)" using assms(1) by simp
  then have "ls_series (after_years zone fraction staked issuance st n) ! (length (ls_series st) - 1)
     = take (length (ls_series st)) (ls_series (after_years zone fraction staked issuance st n)) ! (length (ls_series st) - 1)"
    by simp
  also have "\<dots> = ls_series st ! (length (ls_series st) - 1)" by (simp only: after_years_prefix)
  also have "\<dots> = ls_supply st" using assms by (simp add: last_conv_nth)
  finally show ?thesis .
qed

lemma after_years_nonStaked:
  assumes "ls_nonStaked st = num_sub (snd (ls_supply st)) staked"
  shows "ls_nonStaked (after_years zone fraction staked issuance st n) =
     num_sub (snd (ls_supply (after_years zone fraction staked issuance st n))) staked"
  using assms by (cases n) (simp_all add: after_years_0 after_years_Suc loop_body_nonStaked)

lemma month_reducer_nonempty: "month_reducer zone list point \<noteq> []"
  by (simp add: month_reducer_def lodash_last_def)

lemma foldl_month_reducer_nonempty:
  "xs \<noteq> [] \<or> acc \<noteq> [] \<Longrightarrow> foldl (month_reducer zone) acc xs \<noteq> []"
  by (induction xs arbitrary: acc) (simp_all add: month_reducer_nonempty)

lemma historic_nonempty:
  assumes "supplyByDay inputs \<noteq> []"
  shows "\<exists>hist. historicSupplyByMonth zone (Some inputs) = Some hist \<and> hist \<noteq> []"
  using assms by (simp add: historicSupplyByMonth_def foldl_month_reducer_nonempty)

lemma equilibriums_memo_defined:
  assumes "hist \<noteq> []"
  shows "equilibriums_memo zone g (Some staked) (Some fraction) (Some inputs) (Some hist) =
     Inr (Some
       \<lparr>cashFlowsEquilibrium = getIssuance g staked,
        nonStakedSupplyEquilibrium =
          ls_nonStaked (after_years zone fraction staked (getIssuance g staked)
                         (initial_loop_state hist (last hist) staked) 200),
        supplyEquilibrium =
          snd (ls_supply (after_years zone fraction staked (getIssuance g staked)
                         (initial_loop_state hist (last hist) staked) 200)),
        supplyEquilibriumMap =
          series_map (ls_series (after_years zone fraction staked (getIssuance g staked)
                         (initial_loop_state hist (last hist) staked) 200)),
        supplyEquilibriumSeries =
          ls_series (after_years zone fraction staked (getIssuance g staked)
                         (initial_loop_state hist (last hist) staked) 200),
        yearlyIssuanceFraction = num_div (getIssuance g staked) staked\<rparr>)"
  using assms
  by (simp add: equilibriums_memo_def NEA_last_def Let_def for_loop_after_years del: for_loop.simps)



lemma initial_loop_state_sel:
  "ls_series (initial_loop_state hist supply staked) = hist"
  "ls_supply (initial_loop_state hist supply staked) = supply"
  "ls_nonStaked (initial_loop_state hist supply staked) = num_sub (snd supply) staked"
  by (simp_all add: initial_loop_state_def)

lemma after_years_nth_prev:
  assumes "ls_series st \<noteq> []" and "ls_supply st = last (ls_series st)" and "i < n"
  shows "ls_series (after_years zone fraction staked issuance st n) ! (length (ls_series st) + i - 1) =
     ls_supply (after_years zone fraction staked issuance st i)"
proof (cases i)
  case 0
  then show ?thesis
    using after_years_nth_init[OF assms(1,2)] by (simp add: after_years_0)
next
  case (Suc j)
  then have "j < n" using assms(3) by simp
  then show ?thesis
    using after_years_nth[of j n zone fraction staked issuance st] Suc by simp
qed

lemma series_timestamps:
  fixes zone :: time_zone and fraction staked issuance :: number
  assumes "ls_series st \<noteq> []" and "ls_supply st = last (ls_series st)" and "i < n"
  defines "series \<equiv> ls_series (after_years zone fraction staked issuance st n)"
  shows "fst (series ! (length (ls_series st) + i)) =
           getUnixTime (addYears zone (fromUnixTime (fst (series ! (length (ls_series st) + i - 1)))) 1)"
proof -
  have p: "series ! (length (ls_series st) + i - 1) = ls_supply (after_years zone fraction staked issuance st i)"
    unfolding series_def by (rule after_years_nth_prev[OF assms(1,2,3)])
  have q: "series ! (length (ls_series st) + i) = ls_supply (after_years zone fraction staked issuance st (Suc i))"
    unfolding series_def by (rule after_years_nth[OF assms(3)])
  show ?thesis
    unfolding p q by (simp add: after_years_Suc loop_body_supply)
qed

lemma series_values:
  fixes zone :: time_zone and fraction staked issuance :: number
  assumes "ls_series st \<noteq> []" and "ls_supply st = last (ls_series st)" and "i < n"
    and "ls_nonStaked st = num_sub (snd (ls_supply st)) staked"
  defines "series \<equiv> ls_series (after_years zone fraction staked issuance st n)"
  shows "snd (series ! (length (ls_series st) + i)) =
           num_sub (num_add (snd (series ! (length (ls_series st) + i - 1))) issuance)
             (getBurn fraction (num_sub (snd (series ! (length (ls_series st) + i - 1))) staked))"
proof -
  have p: "series ! (length (ls_series st) + i - 1) = ls_supply (after_years zone fraction staked issuance st i)"
    unfolding series_def by (rule after_years_nth_prev[OF assms(1,2,3)])
  have q: "series ! (length (ls_series st) + i) = ls_supply (after_years zone fraction staked issuance st (Suc i))"
    unfolding series_def by (rule after_years_nth[OF assms(3)])
  show ?thesis
    unfolding p q by (simp add: after_years_Suc loop_body_supply after_years_nonStaked[OF assms(4)])
qed

lemma example_supplyByDay: "supplyByDay example_inputs \<noteq> []"
  by (simp add: example_inputs_def)

lemma series_length_defined:
  assumes "hist \<noteq> []"
  shows "series_length (equilibriums_memo zone g (Some staked) (Some fraction) (Some inputs) (Some hist))
     = Some (length hist + 200)"
  by (simp add: equilibriums_memo_defined[OF assms] series_length_def after_years_length initial_loop_state_sel)

lemma two_month_historic:
  "historicSupplyByMonth (fixed_zone 0) (Some two_month_inputs) =
     Some [(1640995200, Fin 110000000), (1643673600, Fin 110000000)]"
  by code_simp

section \<open>Facts about the historic series\<close>

lemma month_reducer_append:
  assumes "list \<noteq> []"
  shows "month_reducer zone list point =
     (if getMonth zone (fromUnixTime (fst (last list))) \<noteq>
         getMonth zone (fromUnixTime (dp_t point))
      then list @ [(dp_t point, dp_v point)] else list)"
  using assms by (simp add: month_reducer_def lodash_last_def)

lemma month_reducer_hd:
  assumes "list \<noteq> []"
  shows "hd (month_reducer zone list point) = hd list"
  using assms by (simp add: month_reducer_append)

lemma foldl_month_reducer_hd:
  "acc \<noteq> [] \<Longrightarrow> hd (foldl (month_reducer zone) acc xs) = hd acc"
  by (induction xs arbitrary: acc) (simp_all add: month_reducer_hd month_reducer_nonempty)

lemma month_reducer_length: "length list \<le> length (month_reducer zone list point)"
proof (cases "list = []")
  case True
  then show ?thesis by simp
next
  case False
  then show ?thesis by (simp add: month_reducer_append)
qed

lemma foldl_month_reducer_length:
  "length acc \<le> length (foldl (month_reducer zone) acc xs)"
proof (induction xs arbitrary: acc)
  case Nil
  then show ?case by simp
next
  case (Cons x xs)
  have "length acc \<le> length (month_reducer zone acc x)" by (rule month_reducer_length)
  also have "\<dots> \<le> length (foldl (month_reducer zone) (month_reducer zone acc x) xs)"
    by (rule Cons.IH)
  finally show ?case by simp
qed

lemma foldl_month_reducer_single:
  "length (foldl (month_reducer zone) [p0] xs) = 1 \<longleftrightarrow>
     (\<forall>x\<in>set xs. getMonth zone (fromUnixTime (dp_t x)) = getMonth zone (fromUnixTime (fst p0)))"
proof (induction xs)
  case Nil
  then show ?case by simp
next
  case (Cons x xs)
  show ?case
  proof (cases "getMonth zone (fromUnixTime (dp_t x)) = getMonth zone (fromUnixTime (fst p0))")
    case True
    then have "month_reducer zone [p0] x = [p0]" by (simp add: month_reducer_append)
    then show ?thesis using Cons.IH True by simp
  next
    case False
    then have "month_reducer zone [p0] x = [p0, (dp_t x, dp_v x)]"
      by (simp add: month_reducer_append)
    then have "2 \<le> length (foldl (month_reducer zone) (month_reducer zone [p0] x) xs)"
      using foldl_month_reducer_length[of "[p0, (dp_t x, dp_v x)]" zone xs] by simp
    then show ?thesis using False by simp
  qed
qed

lemma month_reducer_adjacent:
  assumes "\<forall>j. Suc j < length list \<longrightarrow>
      getMonth zone (fromUnixTime (fst (list ! j))) \<noteq>
      getMonth zone (fromUnixTime (fst (list ! Suc j)))"
  shows "\<forall>j. Suc j < length (month_reducer zone list point) \<longrightarrow>
      getMonth zone (fromUnixTime (fst (month_reducer zone list point ! j))) \<noteq>
      getMonth zone (fromUnixTime (fst (month_reducer zone list point ! Suc j)))"
proof (cases "list = []")
  case True
  then show ?thesis by (simp add: month_reducer_def lodash_last_def)
next
  case ne: False
  show ?thesis
  proof (cases "getMonth zone (fromUnixTime (fst (last list))) \<noteq>
         getMonth zone (fromUnixTime (dp_t point))")
    case False
    then have "month_reducer zone list point = list" using ne by (simp add: month_reducer_append)
    then show ?thesis using assms by simp
  next
    case True
    then have e: "month_reducer zone list point = list @ [(dp_t point, dp_v point)]"
      using ne by (simp add: month_reducer_append)
    show ?thesis
    proof (intro allI impI)
      fix j
      assume "Suc j < length (month_reducer zone list point)"
      then have j: "Suc j \<le> length list" by (simp add: e)
      show "getMonth zone (fromUnixTime (fst (month_reducer zone list point ! j))) \<noteq>
            getMonth zone (fromUnixTime (fst (month_reducer zone list point ! Suc j)))"
      proof (cases "Suc j < length list")
        case True
        then show ?thesis using assms by (simp add: e nth_append)
      next
        case False
        then have s: "Suc j = length list" using j by simp
        have "last list = list ! (length list - 1)" using ne by (rule last_conv_nth)
        then have "list ! j = last list" using s[symmetric] by simp
        moreover have "j < length list" using s by simp
        ultimately show ?thesis using True s by (simp add: e nth_append)
      qed
    qed
  qed
qed

lemma foldl_month_reducer_adjacent:
  assumes "\<forall>j. Suc j < length acc \<longrightarrow>
      getMonth zone (fromUnixTime (fst (acc ! j))) \<noteq>
      getMonth zone (fromUnixTime (fst (acc ! Suc j)))"
  shows "\<forall>j. Suc j < length (foldl (month_reducer zone) acc xs) \<longrightarrow>
      getMonth zone (fromUnixTime (fst (foldl (month_reducer zone) acc xs ! j))) \<noteq>
      getMonth zone (fromUnixTime (fst (foldl (month_reducer zone) acc xs ! Suc j)))"
  using assms
proof (induction xs arbitrary: acc)
  case Nil
  then show ?case by simp
next
  case (Cons x xs)
  show ?case
    unfolding foldl_Cons by (rule Cons.IH) (rule month_reducer_adjacent[OF Cons.prems])
qed

lemma historic_shape:
  assumes "supplyByDay inputs \<noteq> []"
    and "historicSupplyByMonth zone (Some inputs) = Some hist"
  shows "hd hist = (dp_t (hd (supplyByDay inputs)), dp_v (hd (supplyByDay inputs)))"
    and "\<forall>j. Suc j < length hist \<longrightarrow>
           getMonth zone (fromUnixTime (fst (hist ! j))) \<noteq>
           getMonth zone (fromUnixTime (fst (hist ! Suc j)))"
    and "length hist = 1 \<longleftrightarrow>
           (\<forall>p\<in>set (supplyByDay inputs).
              getMonth zone (fromUnixTime (dp_t p)) =
              getMonth zone (fromUnixTime (dp_t (hd (supplyByDay inputs)))))"
proof -
  obtain p ps where c: "supplyByDay inputs = p # ps"
    using assms(1) by (cases "supplyByDay inputs") auto
  have r: "month_reducer zone [] p = [(dp_t p, dp_v p)]"
    by (simp add: month_reducer_def lodash_last_def)
  have h: "hist = foldl (month_reducer zone) [(dp_t p, dp_v p)] ps"
    using assms(2) by (simp add: historicSupplyByMonth_def c r)
  show "hd hist = (dp_t (hd (supplyByDay inputs)), dp_v (hd (supplyByDay inputs)))"
    unfolding h c by (simp add: foldl_month_reducer_hd)
  show "\<forall>j. Suc j < length hist \<longrightarrow>
           getMonth zone (fromUnixTime (fst (hist ! j))) \<noteq>
           getMonth zone (fromUnixTime (fst (hist ! Suc j)))"
    unfolding h by (rule foldl_month_reducer_adjacent) simp
  show "length hist = 1 \<longleftrightarrow>
           (\<forall>p\<in>set (supplyByDay inputs).
              getMonth zone (fromUnixTime (dp_t p)) =
              getMonth zone (fromUnixTime (dp_t (hd (supplyByDay inputs)))))"
    unfolding h c foldl_month_reducer_single by simp
qed

section \<open>Facts about the values of the series\<close>





section \<open>Facts about the memo on a store\<close>

lemma for_loop_store_funpow:
  "for_loop_store zone fraction staked issuance a i st =
     (loop_body_store zone fraction staked issuance a ^^ (200 - i)) st"
proof (induction zone fraction staked issuance a i st rule: for_loop_store.induct)
  case (1 zone fraction staked issuance a i st)
  show ?case
  proof (cases "i < 200")
    case True
    then have s: "200 - i = Suc (200 - (i + 1))" by simp
    show ?thesis
      using True "1.IH"[OF True]
      by (subst for_loop_store.simps, subst s) (simp add: funpow_swap1 del: for_loop_store.simps)
  next
    case False
    then show ?thesis by (subst for_loop_store.simps) simp
  qed
qed

lemma for_loop_store_after_years:
  "for_loop_store zone fraction staked issuance a 0 st =
     after_years_store zone fraction staked issuance a st 200"
  by (simp add: for_loop_store_funpow after_years_store_def del: for_loop_store.simps)

lemma after_years_store_Suc:
  "after_years_store zone fraction staked issuance a st (Suc n) =
     loop_body_store zone fraction staked issuance a
       (after_years_store zone fraction staked issuance a st n)"
  by (simp add: after_years_store_def)

lemma push_allocated:
  assumes "arrays s a = Some xs"
  shows "push a p s = s\<lparr>arrays := (arrays s)(a \<mapsto> xs @ [p])\<rparr>"
  using assms by (simp add: push_def)

lemma push_updated:
  "push a p (s\<lparr>arrays := (arrays s)(a \<mapsto> xs)\<rparr>) = s\<lparr>arrays := (arrays s)(a \<mapsto> xs @ [p])\<rparr>"
  by (simp add: push_def)

lemma store_simulation:
  assumes "arrays s1 a = Some (ls_series p0)"
  shows "after_years_store zone fraction staked issuance a
           \<lparr>sl_supply = ls_supply p0, sl_nonStaked = ls_nonStaked p0, sl_store = s1\<rparr> n =
         \<lparr>sl_supply = ls_supply (after_years zone fraction staked issuance p0 n),
          sl_nonStaked = ls_nonStaked (after_years zone fraction staked issuance p0 n),
          sl_store = s1\<lparr>arrays := (arrays s1)
                         (a \<mapsto> ls_series (after_years zone fraction staked issuance p0 n))\<rparr>\<rparr>"
proof (induction n)
  case 0
  have "(arrays s1)(a \<mapsto> ls_series p0) = arrays s1" using assms by (rule fun_upd_idem)
  then show ?case by (simp add: after_years_store_def after_years_0)
next
  case (Suc n)
  define p where "p = after_years zone fraction staked issuance p0 n"
  show ?case
    unfolding after_years_store_Suc Suc.IH after_years_Suc p_def[symmetric]
    apply (simp add: loop_body_store_def loop_body_def Let_def push_updated)
    apply (simp add: fun_upd_def)
    done
qed

lemma equilibriums_memo_store_defined:
  assumes "arrays s a = Some hist" and "hist \<noteq> []"
  shows "equilibriums_memo_store zone g (Some staked) (Some fraction) (Some inputs) (Some a) s =
     Inr (Some
       \<lparr>o_cashFlowsEquilibrium = getIssuance g staked,
        o_nonStakedSupplyEquilibrium =
          ls_nonStaked (after_years zone fraction staked (getIssuance g staked)
                         (initial_loop_state hist (last hist) staked) 200),
        o_supplyEquilibrium =
          snd (ls_supply (after_years zone fraction staked (getIssuance g staked)
                         (initial_loop_state hist (last hist) staked) 200)),
        o_supplyEquilibriumMap =
          series_map (ls_series (after_years zone fraction staked (getIssuance g staked)
                         (initial_loop_state hist (last hist) staked) 200)),
        o_supplyEquilibriumSeries = fresh s,
        o_yearlyIssuanceFraction = num_div (getIssuance g staked) staked\<rparr>,
       s\<lparr>arrays := (arrays s)
             (fresh s \<mapsto> ls_series (after_years zone fraction staked (getIssuance g staked)
                                      (initial_loop_state hist (last hist) staked) 200)),
         fresh := Suc (fresh s)\<rparr>)"
proof -
  define s1 where "s1 = s\<lparr>arrays := (arrays s)(fresh s \<mapsto> hist), fresh := Suc (fresh s)\<rparr>"
  define p0 where "p0 = initial_loop_state hist (last hist) staked"
  have sp: "spread a s = Some (fresh s, s1)" using assms(1) by (simp add: spread_def s1_def)
  have c: "arrays s1 (fresh s) = Some hist" by (simp add: s1_def)
  have c': "arrays s1 (fresh s) = Some (ls_series p0)" by (simp add: c p0_def initial_loop_state_sel)
  have n: "NEA_last hist = Some (last hist)" using assms(2) by (simp add: NEA_last_def)
  have i: "\<lparr>sl_supply = last hist, sl_nonStaked = num_sub (snd (last hist)) staked, sl_store = s1\<rparr> =
      \<lparr>sl_supply = ls_supply p0, sl_nonStaked = ls_nonStaked p0, sl_store = s1\<rparr>"
    by (simp add: p0_def initial_loop_state_sel)
  have u: "s1\<lparr>arrays := (arrays s1)(fresh s \<mapsto> xs)\<rparr> =
      s\<lparr>arrays := (arrays s)(fresh s \<mapsto> xs), fresh := Suc (fresh s)\<rparr>" for xs
    by (simp add: s1_def)
  show ?thesis
    unfolding equilibriums_memo_store_def
    by (simp add: sp c n Let_def for_loop_store_after_years i store_simulation[OF c'] u
        p0_def[symmetric] del: for_loop_store.simps)
qed

lemma equilibriums_memo_store_contents:
  assumes "arrays s a = Some hist"
  shows "result_contents (equilibriums_memo_store zone g staked' fraction' inputs' (Some a) s) =
     equilibriums_memo zone g staked' fraction' inputs' (Some hist)"
proof (cases "staked' = None \<or> fraction' = None \<or> inputs' = None")
  case True
  then show ?thesis
    by (auto simp: equilibriums_memo_store_def equilibriums_memo_def result_contents_def)
next
  case False
  then obtain staked fraction inputs where
    e: "staked' = Some staked" "fraction' = Some fraction" "inputs' = Some inputs" by auto
  show ?thesis
  proof (cases "hist = []")
    case True
    then show ?thesis
      using assms
      by (simp add: e equilibriums_memo_store_def equilibriums_memo_def result_contents_def
          spread_def NEA_last_def)
  next
    case False
    show ?thesis
      unfolding e equilibriums_memo_store_defined[OF assms False] equilibriums_memo_defined[OF False]
      by (simp add: result_contents_def)
  qed
qed

lemma equilibriums_memo_store_frame:
  assumes "arrays s a = Some hist"
    and "store_after (equilibriums_memo_store zone g staked' fraction' inputs' (Some a) s) = Some s'"
  shows "\<forall>b. b \<noteq> fresh s \<longrightarrow> arrays s' b = arrays s b"
proof (cases "staked' = None \<or> fraction' = None \<or> inputs' = None")
  case True
  then have "s' = s"
    using assms(2) by (auto simp: equilibriums_memo_store_def store_after_def)
  then show ?thesis by simp
next
  case False
  then obtain staked fraction inputs where
    e: "staked' = Some staked" "fraction' = Some fraction" "inputs' = Some inputs" by auto
  show ?thesis
  proof (cases "hist = []")
    case True
    then have "store_after (equilibriums_memo_store zone g staked' fraction' inputs' (Some a) s) = None"
      using assms(1)
      by (simp add: e equilibriums_memo_store_def store_after_def spread_def NEA_last_def)
    then show ?thesis using assms(2) by simp
  next
    case False
    show ?thesis
      using assms(2)
      unfolding e equilibriums_memo_store_defined[OF assms(1) False]
      by (auto simp: store_after_def)
  qed
qed

section \<open>Facts about the component and the alarm preferences\<close>

lemma example_hist_nonempty: "example_hist \<noteq> []"
  by (simp add: example_hist_def)

lemma month_end_historic_utc:
  "historicSupplyByMonth (fixed_zone 0) (Some month_end_inputs) = Some [(1643666400, Fin 110000000)]"
  by code_simp

lemma month_end_historic_plus_one:
  "historicSupplyByMonth (fixed_zone 3600000) (Some month_end_inputs) =
     Some [(1643666400, Fin 110000000), (1643671800, Fin 110000000)]"
  by code_simp

lemma month_end_state_sel:
  "stakedSupply month_end_state = Fin 10000000"
  "nonStakedSupplyBurnFraction month_end_state = Fin one_percent"
  "supplyProjectionInputs month_end_state = Some month_end_inputs"
  by (simp_all add: month_end_state_def)

lemma month_end_lengths:
  "series_length (equilibriums (fixed_zone 0) 1000000000 month_end_state) = Some 201"
  "series_length (equilibriums (fixed_zone 3600000) 1000000000 month_end_state) = Some 202"
  unfolding equilibriums_def month_end_state_sel month_end_historic_utc month_end_historic_plus_one
  by (subst series_length_defined; simp)+

lemma example_historic:
  "historicSupplyByMonth zone (Some example_inputs) = Some example_hist"
  by (simp add: historicSupplyByMonth_def example_inputs_def example_hist_def month_reducer_def lodash_last_def)

lemma memo_undefined_iff:
  "equilibriums_memo zone g s f inp hist = Inr None \<longleftrightarrow>
     s = None \<or> f = None \<or> inp = None \<or> hist = None"
proof (cases "s = None \<or> f = None \<or> inp = None \<or> hist = None")
  case True
  then show ?thesis by (simp add: equilibriums_memo_def)
next
  case False
  then obtain h where h: "hist = Some h" by auto
  show ?thesis
  proof (cases "h = []")
    case True
    then show ?thesis using False h by (simp add: equilibriums_memo_def NEA_last_def)
  next
    case False
    then have n: "NEA_last h = Some (last h)" by (simp add: NEA_last_def)
    show ?thesis using \<open>\<not> (s = None \<or> f = None \<or> inp = None \<or> hist = None)\<close> h
      by (simp add: equilibriums_memo_def n Let_def del: for_loop.simps)
  qed
qed

lemma historic_undefined_iff:
  "historicSupplyByMonth zone inp = None \<longleftrightarrow> inp = None"
  by (simp add: historicSupplyByMonth_def split: option.splits)

lemma equilibriums_None_iff:
  "equilibriums zone g st = Inr None \<longleftrightarrow> supplyProjectionInputs st = None"
  by (simp add: equilibriums_def memo_undefined_iff historic_undefined_iff)

lemma loading_iff:
  "graph_is_loading (render zone g st) = Some True \<longleftrightarrow> equilibriums zone g st = Inr None"
  by (cases "equilibriums zone g st") (auto simp: render_def graph_is_loading_def)

lemma render_defined:
  assumes "equilibriums zone g st = Inr (Some r)"
  shows "graph_is_loading (render zone g st) = Some False"
  by (simp add: render_def assms graph_is_loading_def)

lemma alarm_step_mount:
  assumes "mount_alarms (fst sp) = snd sp"
  shows "mount_alarms (fst (alarm_step sp e)) = snd (alarm_step sp e)"
proof (cases sp)
  case (Pair store prefs)
  then have m: "mount_alarms store = prefs" using assms by simp
  show ?thesis
    unfolding Pair using m
    by (cases e) (auto simp: mount_alarms_def useLocalStorage_read_def useLocalStorage_write_def)
qed

lemma foldl_alarm_step_mount:
  assumes "mount_alarms (fst sp) = snd sp"
  shows "mount_alarms (fst (foldl alarm_step sp es)) = snd (foldl alarm_step sp es)"
  using assms by (induction es arbitrary: sp) (simp_all add: alarm_step_mount)

lemma foldl_alarm_step_gas:
  "gasAlarmActive (snd (foldl alarm_step (store, prefs) es)) =
     (case last_gas_write es of None \<Rightarrow> gasAlarmActive prefs | Some b \<Rightarrow> b)"
proof (induction es arbitrary: store prefs)
  case Nil
  then show ?case by simp
next
  case (Cons e es)
  then show ?case by (cases e) (simp_all split: option.splits)
qed

lemma foldl_alarm_step_eth:
  "ethAlarmActive (snd (foldl alarm_step (store, prefs) es)) =
     (case last_eth_write es of None \<Rightarrow> ethAlarmActive prefs | Some b \<Rightarrow> b)"
proof (induction es arbitrary: store prefs)
  case Nil
  then show ?case by simp
next
  case (Cons e es)
  then show ?case by (cases e) (simp_all split: option.splits)
qed

section \<open>Facts about the example projections\<close>













section \<open>The claims\<close>

text \<open>
  C1 (as amended). For every input whose supply series is not empty the projection returns
  a result. Its series is the historic series followed by exactly 200 projected points, so
  it has as many points as the historic series plus 200. The historic series begins with
  the first point of the supply series, any two neighbouring points of it have different
  month numbers in the local time of the host, and the whole series has 201 points exactly
  when every point of the supply series has the month number of the first one. From the
  last historic point on, each timestamp is \<open>getUnixTime (addYears previous 1)\<close>: the
  previous timestamp moved one calendar year ahead in local time. These timestamps are
  strictly increasing on every host whose offsets from UTC are at most a day, and on a
  host whose offset never changes each is exactly 365 or 366 days after the previous one.
\<close>

theorem supplyEquilibriumSeries_shape:
  assumes "supplyByDay inputs \<noteq> []"
  shows "\<exists>hist r.
     historicSupplyByMonth zone (Some inputs) = Some hist \<and> hist \<noteq> [] \<and>
     hd hist = (dp_t (hd (supplyByDay inputs)), dp_v (hd (supplyByDay inputs))) \<and>
     (\<forall>j. Suc j < length hist \<longrightarrow>
        getMonth zone (fromUnixTime (fst (hist ! j))) \<noteq>
        getMonth zone (fromUnixTime (fst (hist ! Suc j)))) \<and>
     equilibriums_memo zone g (Some staked) (Some fraction) (Some inputs) (Some hist) = Inr (Some r) \<and>
     length (supplyEquilibriumSeries r) = length hist + 200 \<and>
     take (length hist) (supplyEquilibriumSeries r) = hist \<and>
     (length (supplyEquilibriumSeries r) = 201 \<longleftrightarrow>
        (\<forall>p\<in>set (supplyByDay inputs).
           getMonth zone (fromUnixTime (dp_t p)) =
           getMonth zone (fromUnixTime (dp_t (hd (supplyByDay inputs)))))) \<and>
     (\<forall>i<200.
        fst (supplyEquilibriumSeries r ! (length hist + i)) =
          getUnixTime (addYears zone
            (fromUnixTime (fst (supplyEquilibriumSeries r ! (length hist + i - 1)))) 1)) \<and>
     ((\<forall>t b. \<bar>zone t b\<bar> \<le> MS_PER_DAY) \<longrightarrow>
        (\<forall>i<200.
           fst (supplyEquilibriumSeries r ! (length hist + i - 1)) <
             fst (supplyEquilibriumSeries r ! (length hist + i)))) \<and>
     ((\<forall>t b. zone t b = zone 0 True) \<longrightarrow>
        (\<forall>i<200.
           fst (supplyEquilibriumSeries r ! (length hist + i)) =
             fst (supplyEquilibriumSeries r ! (length hist + i - 1)) + 365 * 86400 \<or>
           fst (supplyEquilibriumSeries r ! (length hist + i)) =
             fst (supplyEquilibriumSeries r ! (length hist + i - 1)) + 366 * 86400))"
proof -
  obtain hist where h: "historicSupplyByMonth zone (Some inputs) = Some hist" "hist \<noteq> []"
    using historic_nonempty[OF assms] by blast
  note shape = historic_shape[OF assms h(1)]
  define st where "st = initial_loop_state hist (last hist) staked"
  define fin where "fin = after_years zone fraction staked (getIssuance g staked) st 200"
  have s1: "ls_series st \<noteq> []" and s2: "ls_supply st = last (ls_series st)"
    and s3: "ls_series st = hist"
    using h(2) by (simp_all add: st_def initial_loop_state_sel)
  obtain r where r: "equilibriums_memo zone g (Some staked) (Some fraction) (Some inputs) (Some hist) = Inr (Some r)"
    and sr: "supplyEquilibriumSeries r = ls_series fin"
    using equilibriums_memo_defined[OF h(2), of zone g staked fraction inputs]
    by (simp add: fin_def st_def)
  have len: "length (supplyEquilibriumSeries r) = length hist + 200"
    unfolding sr fin_def by (simp add: after_years_length s3)
  have pre: "take (length hist) (supplyEquilibriumSeries r) = hist"
    unfolding sr fin_def using after_years_prefix[of st zone fraction staked "getIssuance g staked" 200]
    by (simp add: s3)
  have one: "length (supplyEquilibriumSeries r) = 201 \<longleftrightarrow>
        (\<forall>p\<in>set (supplyByDay inputs).
           getMonth zone (fromUnixTime (dp_t p)) =
           getMonth zone (fromUnixTime (dp_t (hd (supplyByDay inputs)))))"
    unfolding shape(3)[symmetric] len by auto
  have ts: "fst (supplyEquilibriumSeries r ! (length hist + i)) =
          getUnixTime (addYears zone
            (fromUnixTime (fst (supplyEquilibriumSeries r ! (length hist + i - 1)))) 1)"
    if "i < 200" for i
    unfolding sr fin_def
    using series_timestamps[OF s1 s2 that, of zone fraction staked "getIssuance g staked"]
    unfolding s3 .
  have inc: "(\<forall>t b. \<bar>zone t b\<bar> \<le> MS_PER_DAY) \<longrightarrow>
        (\<forall>i<200.
           fst (supplyEquilibriumSeries r ! (length hist + i - 1)) <
             fst (supplyEquilibriumSeries r ! (length hist + i)))"
  proof (intro impI allI)
    fix i :: nat
    assume b: "\<forall>t b. \<bar>zone t b\<bar> \<le> MS_PER_DAY" and i: "i < 200"
    show "fst (supplyEquilibriumSeries r ! (length hist + i - 1)) <
             fst (supplyEquilibriumSeries r ! (length hist + i))"
      unfolding ts[OF i] using b by (rule next_timestamp_later)
  qed
  have yr: "(\<forall>t b. zone t b = zone 0 True) \<longrightarrow>
        (\<forall>i<200.
           fst (supplyEquilibriumSeries r ! (length hist + i)) =
             fst (supplyEquilibriumSeries r ! (length hist + i - 1)) + 365 * 86400 \<or>
           fst (supplyEquilibriumSeries r ! (length hist + i)) =
             fst (supplyEquilibriumSeries r ! (length hist + i - 1)) + 366 * 86400)"
  proof (intro impI allI)
    fix i :: nat
    assume c: "\<forall>t b. zone t b = zone 0 True" and i: "i < 200"
    show "fst (supplyEquilibriumSeries r ! (length hist + i)) =
             fst (supplyEquilibriumSeries r ! (length hist + i - 1)) + 365 * 86400 \<or>
           fst (supplyEquilibriumSeries r ! (length hist + i)) =
             fst (supplyEquilibriumSeries r ! (length hist + i - 1)) + 366 * 86400"
      unfolding ts[OF i] using c by (rule next_timestamp_exact)
  qed
  have tsall: "\<forall>i<200.
        fst (supplyEquilibriumSeries r ! (length hist + i)) =
          getUnixTime (addYears zone
            (fromUnixTime (fst (supplyEquilibriumSeries r ! (length hist + i - 1)))) 1)"
    using ts by blast
  show ?thesis
    by (intro exI[of _ hist] exI[of _ r] conjI h shape(1) shape(2) r len pre one tsall inc yr)
qed

theorem supplyEquilibriumSeries_shape_witness:
  "supplyByDay example_inputs \<noteq> [] \<and>
   (\<forall>t b. \<bar>fixed_zone 0 t b\<bar> \<le> MS_PER_DAY) \<and>
   (\<forall>t b. fixed_zone 0 t b = fixed_zone 0 0 True) \<and>
   (\<exists>hist r.
     historicSupplyByMonth (fixed_zone 0) (Some example_inputs) = Some hist \<and> hist \<noteq> [] \<and>
     equilibriums_memo (fixed_zone 0) 1000000000 (Some (Fin 10000000)) (Some (Fin one_percent))
       (Some example_inputs) (Some hist) = Inr (Some r) \<and>
     length (supplyEquilibriumSeries r) = length hist + 200 \<and>
     length (supplyEquilibriumSeries r) = 201 \<and>
     take (length hist) (supplyEquilibriumSeries r) = hist \<and>
     (\<forall>i<200.
        fst (supplyEquilibriumSeries r ! (length hist + i)) =
          getUnixTime (addYears (fixed_zone 0)
            (fromUnixTime (fst (supplyEquilibriumSeries r ! (length hist + i - 1)))) 1)) \<and>
     (\<forall>i<200.
        fst (supplyEquilibriumSeries r ! (length hist + i - 1)) <
          fst (supplyEquilibriumSeries r ! (length hist + i))) \<and>
     (\<forall>i<200.
        fst (supplyEquilibriumSeries r ! (length hist + i)) =
          fst (supplyEquilibriumSeries r ! (length hist + i - 1)) + 365 * 86400 \<or>
        fst (supplyEquilibriumSeries r ! (length hist + i)) =
          fst (supplyEquilibriumSeries r ! (length hist + i - 1)) + 366 * 86400))"
proof -
  have b: "\<forall>t b. \<bar>fixed_zone 0 t b\<bar> \<le> MS_PER_DAY" by (simp add: fixed_zone_def MS_PER_DAY_def)
  have c: "\<forall>t b. fixed_zone 0 t b = fixed_zone 0 0 True" by (simp add: fixed_zone_def)
  have m: "\<forall>p\<in>set (supplyByDay example_inputs).
           getMonth (fixed_zone 0) (fromUnixTime (dp_t p)) =
           getMonth (fixed_zone 0) (fromUnixTime (dp_t (hd (supplyByDay example_inputs))))"
    by (simp add: example_inputs_def)
  obtain hist r where
    1: "historicSupplyByMonth (fixed_zone 0) (Some example_inputs) = Some hist" and
    2: "hist \<noteq> []" and
    3: "equilibriums_memo (fixed_zone 0) 1000000000 (Some (Fin 10000000)) (Some (Fin one_percent))
         (Some example_inputs) (Some hist) = Inr (Some r)" and
    4: "length (supplyEquilibriumSeries r) = length hist + 200" and
    5: "take (length hist) (supplyEquilibriumSeries r) = hist" and
    6: "length (supplyEquilibriumSeries r) = 201 \<longleftrightarrow>
        (\<forall>p\<in>set (supplyByDay example_inputs).
           getMonth (fixed_zone 0) (fromUnixTime (dp_t p)) =
           getMonth (fixed_zone 0) (fromUnixTime (dp_t (hd (supplyByDay example_inputs)))))" and
    7: "\<forall>i<200.
        fst (supplyEquilibriumSeries r ! (length hist + i)) =
          getUnixTime (addYears (fixed_zone 0)
            (fromUnixTime (fst (supplyEquilibriumSeries r ! (length hist + i - 1)))) 1)" and
    8: "(\<forall>t b. \<bar>fixed_zone 0 t b\<bar> \<le> MS_PER_DAY) \<longrightarrow>
        (\<forall>i<200.
           fst (supplyEquilibriumSeries r ! (length hist + i - 1)) <
             fst (supplyEquilibriumSeries r ! (length hist + i)))" and
    9: "(\<forall>t b. fixed_zone 0 t b = fixed_zone 0 0 True) \<longrightarrow>
        (\<forall>i<200.
           fst (supplyEquilibriumSeries r ! (length hist + i)) =
             fst (supplyEquilibriumSeries r ! (length hist + i - 1)) + 365 * 86400 \<or>
           fst (supplyEquilibriumSeries r ! (length hist + i)) =
             fst (supplyEquilibriumSeries r ! (length hist + i - 1)) + 366 * 86400)"
    using supplyEquilibriumSeries_shape[OF example_supplyByDay, of "fixed_zone 0" 1000000000
        "Fin 10000000" "Fin one_percent"]
    by (elim exE conjE) (rule that)
  have six: "length (supplyEquilibriumSeries r) = 201" using 6 m by (rule iffD2)
  have eight: "\<forall>i<200.
        fst (supplyEquilibriumSeries r ! (length hist + i - 1)) <
          fst (supplyEquilibriumSeries r ! (length hist + i))"
    using 8 b by (rule mp)
  have nine: "\<forall>i<200.
        fst (supplyEquilibriumSeries r ! (length hist + i)) =
          fst (supplyEquilibriumSeries r ! (length hist + i - 1)) + 365 * 86400 \<or>
        fst (supplyEquilibriumSeries r ! (length hist + i)) =
          fst (supplyEquilibriumSeries r ! (length hist + i - 1)) + 366 * 86400"
    using 9 c by (rule mp)
  show ?thesis
    by (intro conjI example_supplyByDay b c exI[of _ hist] exI[of _ r] 1 2 3 4 six 5 7 eight nine)
qed

text \<open>
  The claim as stated fails: for a supply series of two days in different months (1 January
  and 1 February 2022, on a host in UTC) the historic series has two points and the output
  series has 202 points.
\<close>

theorem series_of_two_months_has_202_points:
  "series_length (equilibriums_memo (fixed_zone 0) 1000000000 (Some (Fin 10000000))
      (Some (Fin one_percent)) (Some two_month_inputs)
      (historicSupplyByMonth (fixed_zone 0) (Some two_month_inputs))) = Some 202"
  unfolding two_month_historic by (subst series_length_defined) simp_all

text \<open>
  C2. The loop runs its body exactly 200 times: the series of the result is the series of
  the 200th iterate of the body on the initial state, and has 200 points more than the
  historic series. In each pass the new total supply is the previous total plus the issuance
  \<open>getIssuance g staked\<close> minus the burn fraction times the current non-staked supply, and
  the new non-staked supply is the new total minus the staked supply; read off the output
  series, each projected value is the previous value \<open>v\<close> plus the issuance minus the
  fraction times \<open>v - staked\<close>.
\<close>

theorem projection_step_rule:
  assumes "hist \<noteq> []"
  shows "\<exists>r.
     equilibriums_memo zone g (Some staked) (Some fraction) (Some inputs) (Some hist) = Inr (Some r) \<and>
     supplyEquilibriumSeries r =
       ls_series ((loop_body zone fraction staked (getIssuance g staked) ^^ 200)
                    (initial_loop_state hist (last hist) staked)) \<and>
     length (supplyEquilibriumSeries r) = length hist + 200 \<and>
     (\<forall>i<200.
        snd (supplyEquilibriumSeries r ! (length hist + i)) =
          num_sub (num_add (snd (supplyEquilibriumSeries r ! (length hist + i - 1)))
                           (getIssuance g staked))
                  (num_mul fraction
                     (num_sub (snd (supplyEquilibriumSeries r ! (length hist + i - 1))) staked))) \<and>
     (\<forall>st issuance.
        snd (ls_supply (loop_body zone fraction staked issuance st)) =
          num_sub (num_add (snd (ls_supply st)) issuance) (num_mul fraction (ls_nonStaked st)) \<and>
        ls_nonStaked (loop_body zone fraction staked issuance st) =
          num_sub (snd (ls_supply (loop_body zone fraction staked issuance st))) staked)"
proof -
  define st where "st = initial_loop_state hist (last hist) staked"
  define fin where "fin = after_years zone fraction staked (getIssuance g staked) st 200"
  have s1: "ls_series st \<noteq> []" and s2: "ls_supply st = last (ls_series st)"
    and s3: "ls_series st = hist" and s4: "ls_nonStaked st = num_sub (snd (ls_supply st)) staked"
    using assms by (simp_all add: st_def initial_loop_state_sel)
  obtain r where r: "equilibriums_memo zone g (Some staked) (Some fraction) (Some inputs) (Some hist) = Inr (Some r)"
    and sr: "supplyEquilibriumSeries r = ls_series fin"
    using equilibriums_memo_defined[OF assms, of zone g staked fraction inputs]
    by (simp add: fin_def st_def)
  have a: "supplyEquilibriumSeries r =
       ls_series ((loop_body zone fraction staked (getIssuance g staked) ^^ 200)
                    (initial_loop_state hist (last hist) staked))"
    by (simp add: sr fin_def st_def after_years_def)
  have b: "length (supplyEquilibriumSeries r) = length hist + 200"
    unfolding sr fin_def by (simp add: after_years_length s3)
  have c: "\<forall>i<200.
        snd (supplyEquilibriumSeries r ! (length hist + i)) =
          num_sub (num_add (snd (supplyEquilibriumSeries r ! (length hist + i - 1)))
                           (getIssuance g staked))
                  (num_mul fraction
                     (num_sub (snd (supplyEquilibriumSeries r ! (length hist + i - 1))) staked))"
    unfolding sr fin_def
    using series_values[OF s1 s2 _ s4, of _ 200 zone fraction "getIssuance g staked"]
    by (simp add: s3 getBurn_def)
  have d: "\<forall>st issuance.
        snd (ls_supply (loop_body zone fraction staked issuance st)) =
          num_sub (num_add (snd (ls_supply st)) issuance) (num_mul fraction (ls_nonStaked st)) \<and>
        ls_nonStaked (loop_body zone fraction staked issuance st) =
          num_sub (snd (ls_supply (loop_body zone fraction staked issuance st))) staked"
    by (simp add: loop_body_supply loop_body_nonStaked getBurn_def)
  show ?thesis using r a b c d by blast
qed

theorem projection_step_rule_witness:
  "example_hist \<noteq> [] \<and>
   (\<exists>r.
     equilibriums_memo (fixed_zone 0) 1000000000 (Some (Fin 10000000)) (Some (Fin one_percent)) (Some example_inputs)
       (Some example_hist) = Inr (Some r) \<and>
     length (supplyEquilibriumSeries r) = length example_hist + 200 \<and>
     (\<forall>i<200.
        snd (supplyEquilibriumSeries r ! (length example_hist + i)) =
          num_sub (num_add (snd (supplyEquilibriumSeries r ! (length example_hist + i - 1)))
                           (getIssuance 1000000000 (Fin 10000000)))
                  (num_mul (Fin one_percent)
                     (num_sub (snd (supplyEquilibriumSeries r ! (length example_hist + i - 1)))
                        (Fin 10000000)))))"
  using projection_step_rule[OF example_hist_nonempty, of "fixed_zone 0" 1000000000 "Fin 10000000" "Fin one_percent" example_inputs]
    example_hist_nonempty by blast










text \<open>
  C6 (as amended). The projection is a deterministic function of the staked supply, the
  burn fraction, the supply-projection inputs and the time zone of the host, which
  \<open>getMonth\<close> and \<open>addYears\<close> read. Two evaluations in the same time zone on equal inputs,
  in any two stores that hold the historic series of those inputs, at whatever references,
  return the same error or results with the same contents, those of the function
  \<open>equilibriums_memo\<close> of the inputs. It has no effect on what was there before: it writes
  only to the array that it allocates, so every array allocated before the evaluation, the
  historic series among them, has its contents unchanged.
\<close>

theorem equilibriums_deterministic:
  assumes "historicSupplyByMonth zone inputs' = Some hist"
    and "arrays s1 a1 = Some hist" and "a1 < fresh s1"
    and "arrays s2 a2 = Some hist" and "a2 < fresh s2"
  shows "result_contents (equilibriums_memo_store zone g staked' fraction' inputs' (Some a1) s1) =
           result_contents (equilibriums_memo_store zone g staked' fraction' inputs' (Some a2) s2) \<and>
         result_contents (equilibriums_memo_store zone g staked' fraction' inputs' (Some a1) s1) =
           equilibriums_memo zone g staked' fraction' inputs' (historicSupplyByMonth zone inputs') \<and>
         (\<forall>s'. store_after (equilibriums_memo_store zone g staked' fraction' inputs' (Some a1) s1) =
                 Some s' \<longrightarrow>
               (\<forall>b<fresh s1. arrays s' b = arrays s1 b) \<and> arrays s' a1 = Some hist)"
proof (intro conjI allI impI)
  show "result_contents (equilibriums_memo_store zone g staked' fraction' inputs' (Some a1) s1) =
        result_contents (equilibriums_memo_store zone g staked' fraction' inputs' (Some a2) s2)"
    unfolding equilibriums_memo_store_contents[OF assms(2)]
      equilibriums_memo_store_contents[OF assms(4)] ..
  show "result_contents (equilibriums_memo_store zone g staked' fraction' inputs' (Some a1) s1) =
        equilibriums_memo zone g staked' fraction' inputs' (historicSupplyByMonth zone inputs')"
    unfolding equilibriums_memo_store_contents[OF assms(2)] assms(1) ..
next
  fix s' b
  assume s: "store_after (equilibriums_memo_store zone g staked' fraction' inputs' (Some a1) s1) =
      Some s'"
  note f = equilibriums_memo_store_frame[OF assms(2) s, rule_format]
  {
    assume "b < fresh s1"
    then have "b \<noteq> fresh s1" by simp
    then show "arrays s' b = arrays s1 b" by (rule f)
  }
  have "a1 \<noteq> fresh s1" using assms(3) by simp
  then have "arrays s' a1 = arrays s1 a1" by (rule f)
  then show "arrays s' a1 = Some hist" by (simp only: assms(2))
qed

theorem equilibriums_deterministic_witness:
  "historicSupplyByMonth (fixed_zone 0) (Some example_inputs) = Some example_hist \<and>
   arrays example_store 0 = Some example_hist \<and> 0 < fresh example_store \<and>
   arrays other_store 1 = Some example_hist \<and> 1 < fresh other_store \<and>
   result_contents (equilibriums_memo_store (fixed_zone 0) 1000000000 (Some (Fin 10000000))
       (Some (Fin one_percent)) (Some example_inputs) (Some 0) example_store) =
     result_contents (equilibriums_memo_store (fixed_zone 0) 1000000000 (Some (Fin 10000000))
       (Some (Fin one_percent)) (Some example_inputs) (Some 1) other_store) \<and>
   (\<exists>s'. store_after (equilibriums_memo_store (fixed_zone 0) 1000000000 (Some (Fin 10000000))
            (Some (Fin one_percent)) (Some example_inputs) (Some 0) example_store) = Some s' \<and>
         arrays s' 0 = Some example_hist)"
proof -
  have h: "historicSupplyByMonth (fixed_zone 0) (Some example_inputs) = Some example_hist"
    by (rule example_historic)
  have a1: "arrays example_store 0 = Some example_hist" and f1: "0 < fresh example_store"
    by (simp_all add: example_store_def)
  have a2: "arrays other_store 1 = Some example_hist" and f2: "1 < fresh other_store"
    by (simp_all add: other_store_def)
  note t = equilibriums_deterministic[OF h a1 f1 a2 f2, of 1000000000 "Some (Fin 10000000)"
      "Some (Fin one_percent)"]
  have c: "result_contents (equilibriums_memo_store (fixed_zone 0) 1000000000 (Some (Fin 10000000))
       (Some (Fin one_percent)) (Some example_inputs) (Some 0) example_store) =
     result_contents (equilibriums_memo_store (fixed_zone 0) 1000000000 (Some (Fin 10000000))
       (Some (Fin one_percent)) (Some example_inputs) (Some 1) other_store)"
    using t by (rule conjunct1)
  obtain s' where s: "store_after (equilibriums_memo_store (fixed_zone 0) 1000000000
      (Some (Fin 10000000)) (Some (Fin one_percent)) (Some example_inputs) (Some 0) example_store) =
      Some s'"
    unfolding equilibriums_memo_store_defined[OF a1 example_hist_nonempty]
    by (simp add: store_after_def)
  have "arrays s' 0 = Some example_hist"
    using t[THEN conjunct2, THEN conjunct2, rule_format, OF s] by (rule conjunct2)
  then have e: "\<exists>s'. store_after (equilibriums_memo_store (fixed_zone 0) 1000000000
      (Some (Fin 10000000)) (Some (Fin one_percent)) (Some example_inputs) (Some 0) example_store) =
      Some s' \<and> arrays s' 0 = Some example_hist"
    using s by (intro exI[of _ s'] conjI)
  show ?thesis
    by (intro conjI h a1 f1 a2 f2 c e)
qed

text \<open>
  The claim as stated fails: the result also depends on the time zone of the host. For a
  supply series with points at 22:00 and 23:30 UTC on 31 January 2022 the same three inputs
  give a series of 201 points on a host in UTC and of 202 points on a host one hour ahead
  of UTC, where the second point falls in February.
\<close>

theorem equilibriums_depends_on_time_zone:
  "series_length (equilibriums (fixed_zone 0) 1000000000 month_end_state) = Some 201 \<and>
   series_length (equilibriums (fixed_zone 3600000) 1000000000 month_end_state) = Some 202 \<and>
   equilibriums (fixed_zone 0) 1000000000 month_end_state \<noteq>
     equilibriums (fixed_zone 3600000) 1000000000 month_end_state"
proof -
  have "equilibriums (fixed_zone 0) 1000000000 month_end_state \<noteq>
      equilibriums (fixed_zone 3600000) 1000000000 month_end_state"
  proof
    assume "equilibriums (fixed_zone 0) 1000000000 month_end_state =
      equilibriums (fixed_zone 3600000) 1000000000 month_end_state"
    then have "series_length (equilibriums (fixed_zone 0) 1000000000 month_end_state) =
      series_length (equilibriums (fixed_zone 3600000) 1000000000 month_end_state)" by simp
    then show False unfolding month_end_lengths by simp
  qed
  then show ?thesis using month_end_lengths by simp
qed

text \<open>
  C7. The state of the alarm dialog is a boolean, so it has exactly two values, and it
  starts closed. A click on the trigger button (on the button or a node inside it) toggles
  the state; a click outside the dialog and the button while the dialog is open closes it;
  a click inside the open dialog leaves it open; any click that is not on the button
  leaves a closed dialog closed, and a click without a target changes nothing.
\<close>

theorem alarm_dialog_transitions:
  "showAlarmDialog_initial = False \<and>
   (UNIV :: bool set) = {False, True} \<and>
   (alarmButtonRef = Some b \<and> target = Some x \<and> contains b x \<longrightarrow>
      click contains dialogRef alarmButtonRef showAlarmDialog target = (\<not> showAlarmDialog)) \<and>
   (target = Some x \<and> showAlarmDialog \<and>
    \<not> (alarmButtonRef \<noteq> None \<and> contains (the alarmButtonRef) x) \<and>
    \<not> (dialogRef \<noteq> None \<and> contains (the dialogRef) x) \<longrightarrow>
      click contains dialogRef alarmButtonRef showAlarmDialog target = False) \<and>
   (target = Some x \<and> showAlarmDialog \<and>
    \<not> (alarmButtonRef \<noteq> None \<and> contains (the alarmButtonRef) x) \<and>
    dialogRef = Some d \<and> contains d x \<longrightarrow>
      click contains dialogRef alarmButtonRef showAlarmDialog target = True) \<and>
   (\<not> showAlarmDialog \<and>
    \<not> (target \<noteq> None \<and> alarmButtonRef \<noteq> None \<and> contains (the alarmButtonRef) (the target)) \<longrightarrow>
      click contains dialogRef alarmButtonRef showAlarmDialog target = False) \<and>
   (target = None \<longrightarrow>
      click contains dialogRef alarmButtonRef showAlarmDialog target = showAlarmDialog)"
  by (auto simp: showAlarmDialog_initial_def click_def checkIfClickedOutside_def handleClickAlarm_def Let_def)

theorem alarm_dialog_transitions_witness:
  "click top_bar_contains (Some Dialog) (Some AlarmButton) showAlarmDialog_initial (Some BellIcon) = True \<and>
   click top_bar_contains (Some Dialog) (Some AlarmButton) True (Some GasAlarmInput) = True \<and>
   click top_bar_contains (Some Dialog) (Some AlarmButton) True (Some JoinLink) = False \<and>
   click top_bar_contains (Some Dialog) (Some AlarmButton) True (Some BellIcon) = False \<and>
   click top_bar_contains (Some Dialog) (Some AlarmButton) False (Some JoinLink) = False \<and>
   click top_bar_contains (Some Dialog) (Some AlarmButton) True None = True"
proof -
  note t = alarm_dialog_transitions[of "Some AlarmButton" AlarmButton _ _ top_bar_contains "Some Dialog" _ Dialog]
  have 1: "click top_bar_contains (Some Dialog) (Some AlarmButton) showAlarmDialog_initial (Some BellIcon) = True"
    using t[of "Some BellIcon" BellIcon showAlarmDialog_initial] by (simp add: showAlarmDialog_initial_def)
  have 2: "click top_bar_contains (Some Dialog) (Some AlarmButton) True (Some GasAlarmInput) = True"
    using t[of "Some GasAlarmInput" GasAlarmInput True] by simp
  have 3: "click top_bar_contains (Some Dialog) (Some AlarmButton) True (Some JoinLink) = False"
    using t[of "Some JoinLink" JoinLink True] by simp
  have 4: "click top_bar_contains (Some Dialog) (Some AlarmButton) True (Some BellIcon) = False"
    using t[of "Some BellIcon" BellIcon True] by simp
  have 5: "click top_bar_contains (Some Dialog) (Some AlarmButton) False (Some JoinLink) = False"
    using t[of "Some JoinLink" JoinLink False] by simp
  have 6: "click top_bar_contains (Some Dialog) (Some AlarmButton) True None = True"
    using t[of None _ True] by simp
  show ?thesis using 1 2 3 4 5 6 by simp
qed

text \<open>
  C8. The claim holds of the supply-projection data and fails of the analysis data. The
  memo returns \<open>undefined\<close>, and the text \<open>loading...\<close> stands in the place of the graph,
  when the staked supply or the burn fraction is \<open>undefined\<close>; but both are created as the
  number 0 and are never \<open>undefined\<close>. So when the analysis is undefined and the
  supply-projection inputs are loaded, the effect that sets the two scalars does not run,
  the staked supply is still 0, its issuance is NaN, the result of the memo is defined and
  the graph is rendered in place of the loading text.
\<close>

theorem graph_rendered_while_analysis_undefined:
  "burnRateAll analysis_missing_state = None \<and>
   initial_inputs_effect 1000000000000000000 analysis_missing_state = Inr analysis_missing_state \<and>
   equilibriums_memo (fixed_zone 0) 1000000000 None (Some (nonStakedSupplyBurnFraction analysis_missing_state))
     (supplyProjectionInputs analysis_missing_state)
     (historicSupplyByMonth (fixed_zone 0) (supplyProjectionInputs analysis_missing_state)) = Inr None \<and>
   stakedSupply analysis_missing_state = Fin 0 \<and>
   graph_is_loading (render (fixed_zone 0) 1000000000 analysis_missing_state) = Some False \<and>
   getIssuance 1000000000 (stakedSupply analysis_missing_state) = NaN"
proof -
  have a: "burnRateAll analysis_missing_state = None"
    by (simp add: analysis_missing_state_def initial_widget_state_def)
  have b: "initial_inputs_effect 1000000000000000000 analysis_missing_state = Inr analysis_missing_state"
    by (simp add: initial_inputs_effect_def a)
  have u: "equilibriums_memo (fixed_zone 0) 1000000000 None (Some (nonStakedSupplyBurnFraction analysis_missing_state))
     (supplyProjectionInputs analysis_missing_state)
     (historicSupplyByMonth (fixed_zone 0) (supplyProjectionInputs analysis_missing_state)) = Inr None"
    by (simp add: memo_undefined_iff)
  have z: "stakedSupply analysis_missing_state = Fin 0"
    by (simp add: analysis_missing_state_def initial_widget_state_def)
  have h: "example_hist \<noteq> []" by (simp add: example_hist_def)
  have e: "equilibriums (fixed_zone 0) 1000000000 analysis_missing_state =
      equilibriums_memo (fixed_zone 0) 1000000000 (Some (Fin 0)) (Some (Fin 0)) (Some example_inputs) (Some example_hist)"
    by (simp add: equilibriums_def analysis_missing_state_def initial_widget_state_def example_historic)
  have c: "graph_is_loading (render (fixed_zone 0) 1000000000 analysis_missing_state) = Some False"
    by (rule render_defined) (simp only: e equilibriums_memo_defined[OF h])
  have d: "getIssuance 1000000000 (stakedSupply analysis_missing_state) = NaN"
    by (simp add: z getIssuance_zero)
  show ?thesis by (intro conjI a b u z c d)
qed

text \<open>
  C9. Each alarm preference is a boolean under its own key of the local storage, read at
  mount with the default \<open>false\<close> and written by every call of its setter. After any
  sequence of such calls, mounting again on the resulting storage gives the preferences
  the component had: each one is the value last written to it, or, if it was never written,
  what the storage held at the first mount (\<open>false\<close> on an empty storage).
\<close>

theorem alarm_preferences_round_trip:
  "mount_alarms (fst (alarm_run store es)) = snd (alarm_run store es) \<and>
   gasAlarmActive (mount_alarms (fst (alarm_run store es))) =
     (case last_gas_write es of
        None \<Rightarrow> useLocalStorage_read store ''gas-alarm-enabled'' False
      | Some b \<Rightarrow> b) \<and>
   ethAlarmActive (mount_alarms (fst (alarm_run store es))) =
     (case last_eth_write es of
        None \<Rightarrow> useLocalStorage_read store ''eth-alarm-enabled'' False
      | Some b \<Rightarrow> b) \<and>
   mount_alarms Map.empty = \<lparr>gasAlarmActive = False, ethAlarmActive = False\<rparr>"
proof -
  have m: "mount_alarms (fst (alarm_run store es)) = snd (alarm_run store es)"
    unfolding alarm_run_def by (rule foldl_alarm_step_mount) simp
  have g: "gasAlarmActive (snd (alarm_run store es)) =
     (case last_gas_write es of
        None \<Rightarrow> useLocalStorage_read store ''gas-alarm-enabled'' False
      | Some b \<Rightarrow> b)"
    unfolding alarm_run_def foldl_alarm_step_gas by (simp add: mount_alarms_def split: option.splits)
  have e: "ethAlarmActive (snd (alarm_run store es)) =
     (case last_eth_write es of
        None \<Rightarrow> useLocalStorage_read store ''eth-alarm-enabled'' False
      | Some b \<Rightarrow> b)"
    unfolding alarm_run_def foldl_alarm_step_eth by (simp add: mount_alarms_def split: option.splits)
  have d: "mount_alarms Map.empty = \<lparr>gasAlarmActive = False, ethAlarmActive = False\<rparr>"
    by (simp add: mount_alarms_def useLocalStorage_read_def)
  show ?thesis using m g e d by simp
qed

theorem alarm_preferences_round_trip_witness:
  "mount_alarms (fst (alarm_run Map.empty
      [SetGasAlarmActive True, SetEthAlarmActive True, SetGasAlarmActive False])) =
     \<lparr>gasAlarmActive = False, ethAlarmActive = True\<rparr>"
proof -
  note t = alarm_preferences_round_trip[of Map.empty
      "[SetGasAlarmActive True, SetEthAlarmActive True, SetGasAlarmActive False]"]
  have "gasAlarmActive (mount_alarms (fst (alarm_run Map.empty
      [SetGasAlarmActive True, SetEthAlarmActive True, SetGasAlarmActive False]))) = False"
    using t[THEN conjunct2, THEN conjunct1] by simp
  moreover have "ethAlarmActive (mount_alarms (fst (alarm_run Map.empty
      [SetGasAlarmActive True, SetEthAlarmActive True, SetGasAlarmActive False]))) = True"
    using t[THEN conjunct2, THEN conjunct2, THEN conjunct1] by simp
  ultimately show ?thesis
    by (cases "mount_alarms (fst (alarm_run Map.empty
      [SetGasAlarmActive True, SetEthAlarmActive True, SetGasAlarmActive False]))") simp
qed

text \<open>
  C10. After every number \<open>n \<le> 200\<close> of passes through the loop the non-staked supply is
  the current total supply minus the staked supply; every pass is the loop body with the
  one issuance \<open>getIssuance g staked\<close>; and the outputs satisfy
  \<open>nonStakedSupplyEquilibrium = supplyEquilibrium - stakedSupply\<close>,
  \<open>cashFlowsEquilibrium = getIssuance stakedSupply\<close> and
  \<open>yearlyIssuanceFraction = getIssuance stakedSupply / stakedSupply\<close>.
\<close>

theorem projection_invariants:
  assumes "hist \<noteq> []"
  shows "\<exists>r.
     equilibriums_memo zone g (Some staked) (Some fraction) (Some inputs) (Some hist) = Inr (Some r) \<and>
     (\<forall>n\<le>200.
        ls_nonStaked (after_years zone fraction staked (getIssuance g staked)
                        (initial_loop_state hist (last hist) staked) n) =
          num_sub (snd (ls_supply (after_years zone fraction staked (getIssuance g staked)
                        (initial_loop_state hist (last hist) staked) n))) staked) \<and>
     (\<forall>n<200.
        after_years zone fraction staked (getIssuance g staked)
          (initial_loop_state hist (last hist) staked) (Suc n) =
        loop_body zone fraction staked (getIssuance g staked)
          (after_years zone fraction staked (getIssuance g staked)
             (initial_loop_state hist (last hist) staked) n)) \<and>
     supplyEquilibrium r =
       snd (ls_supply (after_years zone fraction staked (getIssuance g staked)
                        (initial_loop_state hist (last hist) staked) 200)) \<and>
     nonStakedSupplyEquilibrium r = num_sub (supplyEquilibrium r) staked \<and>
     cashFlowsEquilibrium r = getIssuance g staked \<and>
     yearlyIssuanceFraction r = num_div (getIssuance g staked) staked"
proof -
  define st where "st = initial_loop_state hist (last hist) staked"
  have s4: "ls_nonStaked st = num_sub (snd (ls_supply st)) staked"
    by (simp add: st_def initial_loop_state_sel)
  note inv = after_years_nonStaked[OF s4, of zone fraction "getIssuance g staked"]
  show ?thesis
    unfolding equilibriums_memo_defined[OF assms] st_def[symmetric]
    using inv by (simp add: after_years_Suc)
qed

theorem projection_invariants_witness:
  "example_hist \<noteq> [] \<and>
   (\<exists>r.
     equilibriums_memo (fixed_zone 0) 1000000000 (Some (Fin 10000000)) (Some (Fin one_percent)) (Some example_inputs)
       (Some example_hist) = Inr (Some r) \<and>
     nonStakedSupplyEquilibrium r = num_sub (supplyEquilibrium r) (Fin 10000000) \<and>
     cashFlowsEquilibrium r = Fin 525960 \<and>
     yearlyIssuanceFraction r = num_div (Fin 525960) (Fin 10000000))"
proof -
  note t = projection_invariants[OF example_hist_nonempty, of "fixed_zone 0" 1000000000 "Fin 10000000" "Fin one_percent" example_inputs]
  then obtain r where
    "equilibriums_memo (fixed_zone 0) 1000000000 (Some (Fin 10000000)) (Some (Fin one_percent)) (Some example_inputs)
       (Some example_hist) = Inr (Some r)"
    "nonStakedSupplyEquilibrium r = num_sub (supplyEquilibrium r) (Fin 10000000)"
    "cashFlowsEquilibrium r = getIssuance 1000000000 (Fin 10000000)"
    "yearlyIssuanceFraction r = num_div (getIssuance 1000000000 (Fin 10000000)) (Fin 10000000)"
    by blast
  then show ?thesis
    using example_hist_nonempty by (simp add: getIssuance_ten_million)
qed

end
